theory Spec2Isabelle
  imports Complex_Main "HOL-Library.Sublist"
begin

section \<open>Python values, strings and items\<close>

text \<open>
  A Python \<open>str\<close> is a sequence of Unicode code points; it is modelled as a list of
  natural numbers, so that \<open>len\<close>, \<open>in\<close> and slicing count code points as the source does.
  ASCII literals are written through \<open>u\<close>.
\<close>

type_synonym ustr = "nat list"

definition u :: "string \<Rightarrow> ustr" where
  "u s = map of_char s"

text \<open>
  The code points for which \<open>str.isspace()\<close> holds; \<open>str.strip()\<close>, \<open>str.split()\<close> and the
  regular-expression class \<open>\s\<close> all use this set.
\<close>

definition isspace :: "nat \<Rightarrow> bool" where
  "isspace c \<longleftrightarrow>
     (9 \<le> c \<and> c \<le> 13) \<or> (28 \<le> c \<and> c \<le> 32) \<or> c = 133 \<or> c = 160 \<or> c = 5760 \<or>
     (8192 \<le> c \<and> c \<le> 8202) \<or> c = 8232 \<or> c = 8233 \<or> c = 8239 \<or> c = 8287 \<or> c = 12288"

definition strip :: "ustr \<Rightarrow> ustr" where
  "strip s = rev (dropWhile isspace (rev (dropWhile isspace s)))"

text \<open>\<open>s.split()\<close>: the maximal runs of non-whitespace; \<open>cur\<close> holds the current run reversed.\<close>

fun split_acc :: "ustr \<Rightarrow> ustr \<Rightarrow> ustr list" where
  "split_acc cur [] = (if cur = [] then [] else [rev cur])"
| "split_acc cur (c # cs) =
     (if isspace c then (if cur = [] then split_acc [] cs else rev cur # split_acc [] cs)
      else split_acc (c # cur) cs)"

definition split :: "ustr \<Rightarrow> ustr list" where
  "split s = split_acc [] s"

fun join :: "ustr \<Rightarrow> ustr list \<Rightarrow> ustr" where
  "join sep [] = []"
| "join sep [x] = x"
| "join sep (x # y # ys) = x @ sep @ join sep (y # ys)"

text \<open>
  A text with its ASCII capitals lowered; \<open>str.lower\<close> gives the same on text whose only
  cased characters are ASCII letters.
\<close>

definition ascii_lower :: "ustr \<Rightarrow> ustr" where
  "ascii_lower s = map (\<lambda>c. if 65 \<le> c \<and> c \<le> 90 then c + 32 else c) s"

text \<open>
  The values an item field can hold. A \<open>datetime\<close> is represented by the text its
  \<open>isoformat()\<close> returns, which is the only thing the pipelines ask of it.
\<close>

datatype pyval =
    PNone
  | PStr ustr
  | PInt int
  | PBool bool
  | PList "ustr list"
  | PDatetime ustr

text \<open>Python truthiness, as used by \<open>if not item.get(...)\<close>.\<close>

fun truthy :: "pyval \<Rightarrow> bool" where
  "truthy PNone = False"
| "truthy (PStr s) = (s \<noteq> [])"
| "truthy (PInt n) = (n \<noteq> 0)"
| "truthy (PBool b) = b"
| "truthy (PList xs) = (xs \<noteq> [])"
| "truthy (PDatetime t) = True"

text \<open>A scrapy item (and a stored document) is a dictionary from field names to values.\<close>

type_synonym item = "string \<rightharpoonup> pyval"

definition item_get :: "item \<Rightarrow> string \<Rightarrow> pyval" where
  "item_get it k = (case it k of None \<Rightarrow> PNone | Some v \<Rightarrow> v)"

section \<open>Exceptions and log records\<close>

datatype exn =
    DropItem dropmsg
  | AttributeError
  | KeyError
  | ValueError
  | TypeError
  | NotSupported
  | SinkError
and dropmsg =
    MissingTitle
  | MissingContent
  | MissingUrl
  | DuplicateFound pyval
  | ErrorSaving exn

datatype level = Debug | Info | Error

datatype logmsg =
    ArticleAlreadyExists pyval
  | ArticleSaved pyval
  | ErrorSavingMongo exn
  | ArticleIndexed pyval
  | ErrorIndexing exn

type_synonym log = "(level \<times> logmsg) list"

section \<open>pipelines.py\<close>

subsection \<open>ValidationPipeline\<close>

definition ValidationPipeline_process_item :: "item \<Rightarrow> exn + item" where
  "ValidationPipeline_process_item it =
     (if \<not> truthy (item_get it ''title'') then Inl (DropItem MissingTitle)
      else if \<not> truthy (item_get it ''content'') then Inl (DropItem MissingContent)
      else if \<not> truthy (item_get it ''url'') then Inl (DropItem MissingUrl)
      else Inr it)"

subsection \<open>MongoPipeline\<close>

text \<open>
  The pipeline's \<open>self.db\<close>: \<open>None\<close> when \<open>open_spider\<close> failed to connect, otherwise the
  \<open>articles\<close> collection as the list of its documents in insertion order, and whether the
  server still answers (a call on a dead connection raises).
\<close>

record mongo_pipeline =
  db :: "item list option"
  alive :: bool

text \<open>\<open>dict(item)\<close> with every \<open>datetime\<close> replaced by its \<open>isoformat()\<close> string.\<close>

definition to_doc :: "item \<Rightarrow> item" where
  "to_doc it = (\<lambda>k. case it k of
                      None \<Rightarrow> None
                    | Some (PDatetime t) \<Rightarrow> Some (PStr t)
                    | Some v \<Rightarrow> Some v)"

text \<open>
  \<open>find_one({'article_id': v})\<close>: the first document whose field equals \<open>v\<close>; a query for
  \<open>None\<close> also matches a document without the field, which \<open>item_get\<close> gives as well.
\<close>

definition find_one :: "mongo_pipeline \<Rightarrow> pyval \<Rightarrow> exn + item option" where
  "find_one m v =
     (case db m of
        None \<Rightarrow> Inl AttributeError
      | Some docs \<Rightarrow>
          if \<not> alive m then Inl SinkError
          else Inr (find (\<lambda>d. item_get d ''article_id'' = v) docs))"

definition insert_one :: "mongo_pipeline \<Rightarrow> item \<Rightarrow> exn + mongo_pipeline" where
  "insert_one m d =
     (case db m of
        None \<Rightarrow> Inl AttributeError
      | Some docs \<Rightarrow>
          if \<not> alive m then Inl SinkError
          else Inr (m\<lparr>db := Some (docs @ [d])\<rparr>))"

text \<open>
  The body of the \<open>try\<close> block of \<open>MongoPipeline.process_item\<close>. A document found in the
  store always carries the store-assigned \<open>_id\<close>, so \<open>if existing\<close> holds exactly when one
  was found.
\<close>

definition mongo_try :: "mongo_pipeline \<Rightarrow> log \<Rightarrow> item \<Rightarrow> (exn + item) \<times> mongo_pipeline \<times> log" where
  "mongo_try m lg it =
     (case find_one m (item_get it ''article_id'') of
        Inl e \<Rightarrow> (Inl e, m, lg)
      | Inr (Some existing) \<Rightarrow>
          (Inl (DropItem (DuplicateFound (item_get it ''title''))), m,
           lg @ [(Debug, ArticleAlreadyExists (item_get it ''title''))])
      | Inr None \<Rightarrow>
          (case insert_one m (to_doc it) of
             Inl e \<Rightarrow> (Inl e, m, lg)
           | Inr m' \<Rightarrow> (Inr it, m', lg @ [(Info, ArticleSaved (item_get it ''title''))])))"

text \<open>
  \<open>except Exception as e\<close> around the whole body: \<open>DropItem\<close> is an \<open>Exception\<close>, so the
  handler also receives the duplicate drop raised inside the \<open>try\<close>.
\<close>

definition MongoPipeline_process_item ::
  "mongo_pipeline \<Rightarrow> log \<Rightarrow> item \<Rightarrow> (exn + item) \<times> mongo_pipeline \<times> log" where
  "MongoPipeline_process_item m lg it =
     (case mongo_try m lg it of
        (Inl e, m', lg') \<Rightarrow> (Inl (DropItem (ErrorSaving e)), m', lg' @ [(Error, ErrorSavingMongo e)])
      | (Inr it', m', lg') \<Rightarrow> (Inr it', m', lg'))"

subsection \<open>ElasticsearchPipeline\<close>

text \<open>
  The search-index client is an external capability: \<open>index\<close> stands for
  \<open>self.es.index(index=..., id=doc_id, body=doc)\<close> on a client state of any type, and may
  raise. \<open>self.es\<close> is \<open>None\<close> when \<open>open_spider\<close> failed.
\<close>

type_synonym 's es_index = "'s \<Rightarrow> pyval \<Rightarrow> item \<Rightarrow> exn + 's"

definition es_try :: "'s es_index \<Rightarrow> 's option \<Rightarrow> log \<Rightarrow> item \<Rightarrow> (exn + item) \<times> 's option \<times> log" where
  "es_try index es lg it =
     (let doc = to_doc it; doc_id = item_get doc ''article_id'' in
      case es of
        None \<Rightarrow> (Inl AttributeError, es, lg)
      | Some s \<Rightarrow>
          (case index s doc_id doc of
             Inl e \<Rightarrow> (Inl e, es, lg)
           | Inr s' \<Rightarrow> (Inr it, Some s', lg @ [(Info, ArticleIndexed (item_get it ''title''))])))"

definition ElasticsearchPipeline_process_item ::
  "'s es_index \<Rightarrow> 's option \<Rightarrow> log \<Rightarrow> item \<Rightarrow> (exn + item) \<times> 's option \<times> log" where
  "ElasticsearchPipeline_process_item index es lg it =
     (case es_try index es lg it of
        (Inl e, es', lg') \<Rightarrow> (Inr it, es', lg' @ [(Error, ErrorIndexing e)])
      | (Inr it', es', lg') \<Rightarrow> (Inr it', es', lg'))"

subsection \<open>CleaningPipeline\<close>

text \<open>
  \<open>item[k] = item[k].strip()\<close> under \<open>if item.get(k)\<close>: a truthy value that is not a \<open>str\<close>
  has no \<open>strip\<close> (or \<open>split\<close>) and the call raises \<open>AttributeError\<close>, which leaves the stage.
\<close>

definition clean_str_field :: "(ustr \<Rightarrow> ustr) \<Rightarrow> string \<Rightarrow> item \<Rightarrow> exn + item" where
  "clean_str_field f k it =
     (if truthy (item_get it k) then
        (case item_get it k of
           PStr s \<Rightarrow> Inr (it(k \<mapsto> PStr (f s)))
         | _ \<Rightarrow> Inl AttributeError)
      else Inr it)"

text \<open>
  \<open>int(v)\<close> with \<open>ValueError\<close> and \<open>TypeError\<close> caught and replaced by 0. Parsing a \<open>str\<close> is
  the interpreter's; \<open>int_of_str\<close> stands for it (\<open>None\<close> where \<open>int\<close> raises \<open>ValueError\<close>).
\<close>

definition coerce_int :: "(ustr \<Rightarrow> int option) \<Rightarrow> pyval \<Rightarrow> int" where
  "coerce_int int_of_str v =
     (case v of
        PInt n \<Rightarrow> n
      | PBool b \<Rightarrow> (if b then 1 else 0)
      | PStr s \<Rightarrow> (case int_of_str s of Some n \<Rightarrow> n | None \<Rightarrow> 0)
      | _ \<Rightarrow> 0)"

definition clean_num_field :: "(ustr \<Rightarrow> int option) \<Rightarrow> item \<Rightarrow> string \<Rightarrow> item" where
  "clean_num_field int_of_str it k =
     (if truthy (item_get it k) then it(k \<mapsto> PInt (coerce_int int_of_str (item_get it k))) else it)"

definition CleaningPipeline_process_item :: "(ustr \<Rightarrow> int option) \<Rightarrow> item \<Rightarrow> exn + item" where
  "CleaningPipeline_process_item int_of_str it =
     (case clean_str_field strip ''title'' it of
        Inl e \<Rightarrow> Inl e
      | Inr it1 \<Rightarrow>
          (case clean_str_field (\<lambda>s. join (u '' '') (split s)) ''content'' it1 of
             Inl e \<Rightarrow> Inl e
           | Inr it2 \<Rightarrow>
               (case clean_str_field strip ''description'' it2 of
                  Inl e \<Rightarrow> Inl e
                | Inr it3 \<Rightarrow>
                    Inr (foldl (clean_num_field int_of_str) it3
                           [''read_count'', ''like_count'', ''comment_count'']))))"

section \<open>The item pipeline chain\<close>

datatype pipeline = MongoPipeline | ElasticsearchPipeline | ValidationPipeline | CleaningPipeline

text \<open>What the stages act on: both sinks and the spider's log.\<close>

record 's world =
  mongo :: mongo_pipeline
  es :: "'s option"
  logs :: log

definition process_stage ::
  "'s es_index \<Rightarrow> (ustr \<Rightarrow> int option) \<Rightarrow> pipeline \<Rightarrow> 's world \<Rightarrow> item \<Rightarrow> (exn + item) \<times> 's world" where
  "process_stage index int_of_str p w it =
     (case p of
        MongoPipeline \<Rightarrow>
          (case MongoPipeline_process_item (mongo w) (logs w) it of
             (r, m', lg') \<Rightarrow> (r, w\<lparr>mongo := m', logs := lg'\<rparr>))
      | ElasticsearchPipeline \<Rightarrow>
          (case ElasticsearchPipeline_process_item index (es w) (logs w) it of
             (r, es', lg') \<Rightarrow> (r, w\<lparr>es := es', logs := lg'\<rparr>))
      | ValidationPipeline \<Rightarrow> (ValidationPipeline_process_item it, w)
      | CleaningPipeline \<Rightarrow> (CleaningPipeline_process_item int_of_str it, w))"

text \<open>
  Scrapy hands an item to \<open>process_item\<close> of each enabled pipeline in turn; an exception
  (a \<open>DropItem\<close> or any other) ends the item's way through the chain.
\<close>

fun run_chain ::
  "'s es_index \<Rightarrow> (ustr \<Rightarrow> int option) \<Rightarrow> pipeline list \<Rightarrow> 's world \<Rightarrow> item \<Rightarrow> (exn + item) \<times> 's world" where
  "run_chain index int_of_str [] w it = (Inr it, w)"
| "run_chain index int_of_str (p # ps) w it =
     (case process_stage index int_of_str p w it of
        (Inl e, w') \<Rightarrow> (Inl e, w')
      | (Inr it', w') \<Rightarrow> run_chain index int_of_str ps w' it')"

text \<open>
  \<open>ITEM_PIPELINES\<close> maps each enabled pipeline to its order value; scrapy runs them by
  increasing value.
\<close>

type_synonym item_pipelines = "(pipeline \<times> nat) list"

definition build_chain :: "item_pipelines \<Rightarrow> pipeline list" where
  "build_chain cfg = map fst (sort_key snd cfg)"

section \<open>app.py\<close>

text \<open>
  \<open>CrawlerManager._crawl_articles\<close> takes the project settings and sets \<open>ITEM_PIPELINES\<close>
  to its own dictionary, whatever the project had there.
\<close>

definition crawl_articles_pipelines :: "item_pipelines \<Rightarrow> item_pipelines" where
  "crawl_articles_pipelines project = [(MongoPipeline, 300), (ElasticsearchPipeline, 400)]"

text \<open>What becomes of one item the spider yields during such a crawl.\<close>

definition crawl_item ::
  "'s es_index \<Rightarrow> (ustr \<Rightarrow> int option) \<Rightarrow> item_pipelines \<Rightarrow> 's world \<Rightarrow> item \<Rightarrow> (exn + item) \<times> 's world" where
  "crawl_item index int_of_str project w it =
     run_chain index int_of_str (build_chain (crawl_articles_pipelines project)) w it"

section \<open>spiders/wechat.py: the listing pages\<close>

text \<open>
  The decoded body of a listing response, as far as \<open>parse_article_list\<close> reads it:
  \<open>data.get('success')\<close>, \<open>data.get('app_msg_list')\<close> (\<open>[]\<close> when absent) and
  \<open>data.get('total_page_cnt')\<close> (\<open>None\<close> when absent). \<open>NotJson\<close> is a body on which
  \<open>json.loads\<close> raises \<open>JSONDecodeError\<close>.
\<close>

record 'a listing =
  success :: pyval
  app_msg_list :: "'a list"
  total_page_cnt :: "int option"

datatype 'a response = NotJson | Json "'a listing"

datatype request =
    ArticleListRequest ustr int nat
  | ArticleContentRequest pyval item

datatype spider_event =
    FinishedCrawling
  | FailedToGetArticleList
  | FailedToParseResponse

text \<open>\<open>create_article_request(fake_id, begin)\<close>: the query always asks for 5 entries.\<close>

definition create_article_request :: "ustr \<Rightarrow> int \<Rightarrow> request" where
  "create_article_request fake_id begin = ArticleListRequest fake_id begin 5"

text \<open>
  Building \<open>scrapy.Request(url=v, ...)\<close> raises \<open>TypeError\<close> when \<open>v\<close> is not a \<open>str\<close>
  and \<open>ValueError\<close> when it has no scheme, as the empty string has none;
  \<open>has_scheme\<close> stands for scrapy's test on a non-empty \<open>str\<close>.
\<close>

definition request_error :: "(ustr \<Rightarrow> bool) \<Rightarrow> pyval \<Rightarrow> exn option" where
  "request_error has_scheme v =
     (case v of
        PStr s \<Rightarrow> if s \<noteq> [] \<and> has_scheme s then None else Some ValueError
      | _ \<Rightarrow> Some TypeError)"

text \<open>
  The \<open>for article_data in articles\<close> loop of the generator: the requests it yields and
  the exception that ends it, if one is raised. \<open>parse_article_data\<close> is passed in; it
  returns \<open>None\<close> or an item with its fields set (\<open>url\<close> is \<open>''\<close> for an entry without a
  link), so \<open>if item\<close> holds exactly for the latter. \<open>item['url']\<close> raises \<open>KeyError\<close> on
  an item without the field. Nothing in \<open>parse_article_list\<close> catches these exceptions.
\<close>

fun content_loop ::
  "(ustr \<Rightarrow> bool) \<Rightarrow> ('a \<Rightarrow> ustr \<Rightarrow> item option) \<Rightarrow> ustr \<Rightarrow> 'a list \<Rightarrow> request list \<times> exn option" where
  "content_loop has_scheme parse_article_data fake_id [] = ([], None)"
| "content_loop has_scheme parse_article_data fake_id (a # articles) =
     (case parse_article_data a fake_id of
        None \<Rightarrow> content_loop has_scheme parse_article_data fake_id articles
      | Some it \<Rightarrow>
          (case it ''url'' of
             None \<Rightarrow> ([], Some KeyError)
           | Some url \<Rightarrow>
               (case request_error has_scheme url of
                  Some e \<Rightarrow> ([], Some e)
                | None \<Rightarrow>
                    (case content_loop has_scheme parse_article_data fake_id articles of
                       (reqs, e) \<Rightarrow> (ArticleContentRequest url it # reqs, e)))))"

text \<open>
  \<open>parse_article_list\<close>: the requests the generator yields, what it logs, and the
  exception that leaves it, if any. Only \<open>JSONDecodeError\<close> is caught; an exception
  raised in the loop ends the generator before the next-page decision.
\<close>

definition parse_article_list ::
  "(ustr \<Rightarrow> bool) \<Rightarrow> ('a \<Rightarrow> ustr \<Rightarrow> item option) \<Rightarrow> ustr \<Rightarrow> int \<Rightarrow> 'a response
     \<Rightarrow> request list \<times> spider_event list \<times> exn option" where
  "parse_article_list has_scheme parse_article_data fake_id begin r =
     (case r of
        NotJson \<Rightarrow> ([], [FailedToParseResponse], None)
      | Json data \<Rightarrow>
          if truthy (success data) \<and> app_msg_list data \<noteq> [] then
            (let articles = app_msg_list data in
             case content_loop has_scheme parse_article_data fake_id articles of
               (reqs, Some e) \<Rightarrow> (reqs, [], Some e)
             | (reqs, None) \<Rightarrow>
                 (let total_count = (case total_page_cnt data of None \<Rightarrow> 0 | Some n \<Rightarrow> n);
                      current_count = begin + int (length articles)
                  in if current_count < total_count
                     then (reqs @ [create_article_request fake_id current_count], [], None)
                     else (reqs, [FinishedCrawling], None)))
          else ([], [FailedToGetArticleList], None))"

text \<open>The \<open>begin\<close> offsets of the listing requests among the requests a callback yields.\<close>

fun list_begins :: "request list \<Rightarrow> int list" where
  "list_begins [] = []"
| "list_begins (ArticleListRequest f b c # rs) = b # list_begins rs"
| "list_begins (ArticleContentRequest v it # rs) = list_begins rs"

text \<open>
  The chain of listing requests of one crawl: the engine downloads the request for
  \<open>begin\<close>, the source answers \<open>fetch begin\<close>, and the callback yields the next listing
  request or none. The result is the list of offsets requested; the fuel bounds the
  number of pages, and \<open>None\<close> means the fuel ran out.
\<close>

fun crawl_pages ::
  "nat \<Rightarrow> (ustr \<Rightarrow> bool) \<Rightarrow> ('a \<Rightarrow> ustr \<Rightarrow> item option) \<Rightarrow> (int \<Rightarrow> 'a response) \<Rightarrow> ustr \<Rightarrow> int
     \<Rightarrow> int list option" where
  "crawl_pages 0 hs pad fetch fake_id begin = None"
| "crawl_pages (Suc n) hs pad fetch fake_id begin =
     (case list_begins (fst (parse_article_list hs pad fake_id begin (fetch begin))) of
        [] \<Rightarrow> Some [begin]
      | b # bs \<Rightarrow> map_option ((#) begin) (crawl_pages n hs pad fetch fake_id b))"

text \<open>What a response reports, for stating properties of the cursor.\<close>

definition reported_total :: "'a response \<Rightarrow> int" where
  "reported_total r = (case r of NotJson \<Rightarrow> 0
                       | Json data \<Rightarrow> (case total_page_cnt data of None \<Rightarrow> 0 | Some n \<Rightarrow> n))"

definition returned_count :: "'a response \<Rightarrow> nat" where
  "returned_count r = (case r of NotJson \<Rightarrow> 0 | Json data \<Rightarrow> length (app_msg_list data))"

definition usable :: "'a response \<Rightarrow> bool" where
  "usable r = (case r of NotJson \<Rightarrow> False
               | Json data \<Rightarrow> truthy (success data) \<and> app_msg_list data \<noteq> [])"

text \<open>
  Every entry of the response that parses to an item gives a request scrapy accepts.
\<close>

definition entry_ok :: "(ustr \<Rightarrow> bool) \<Rightarrow> ('a \<Rightarrow> ustr \<Rightarrow> item option) \<Rightarrow> ustr \<Rightarrow> 'a \<Rightarrow> bool" where
  "entry_ok has_scheme parse_article_data fake_id a =
     (case parse_article_data a fake_id of
        None \<Rightarrow> True
      | Some it \<Rightarrow>
          (case it ''url'' of
             None \<Rightarrow> False
           | Some url \<Rightarrow> request_error has_scheme url = None))"

definition entries_ok ::
  "(ustr \<Rightarrow> bool) \<Rightarrow> ('a \<Rightarrow> ustr \<Rightarrow> item option) \<Rightarrow> ustr \<Rightarrow> 'a response \<Rightarrow> bool" where
  "entries_ok has_scheme parse_article_data fake_id r =
     (case r of
        NotJson \<Rightarrow> True
      | Json data \<Rightarrow> list_all (entry_ok has_scheme parse_article_data fake_id) (app_msg_list data))"

section \<open>spiders/wechat.py: the classifier\<close>

text \<open>\<open>k in text\<close> on strings: \<open>k\<close> starts at some position of \<open>text\<close>.\<close>

fun contains :: "ustr \<Rightarrow> ustr \<Rightarrow> bool" where
  "contains k [] = (k = [])"
| "contains k (c # cs) = (prefix k (c # cs) \<or> contains k cs)"

text \<open>
  The \<open>categories\<close> dictionary of \<open>categorize_article\<close>, in the order it is written (a
  \<open>dict\<close> iterates in insertion order), and the value returned when nothing matches.
\<close>

definition categories :: "(ustr \<times> ustr list) list" where
  "categories =
   [([25216, 26415],
     [[25216, 26415], [32534, 31243], [24320, 21457], [20195, 30721], [31639, 27861],
      [26694, 26550], [24037, 20855]]),
    ([29983, 27963],
     [[29983, 27963], [26085, 24120], [32463, 39564], [20998, 20139], [25925, 20107],
      [24863, 24735]]),
    ([25945, 32946],
     [[25945, 32946], [23398, 20064], [25945, 31243], [22521, 35757], [30693, 35782],
      [25216, 33021]]),
    ([21830, 19994],
     [[21830, 19994], [21019, 19994], [25237, 36164], [33829, 38144], [31649, 29702],
      [32844, 22330]]),
    ([25991, 21270],
     [[25991, 21270], [33402, 26415], [21382, 21490], [25991, 23398], [38899, 20048],
      [30005, 24433]]),
    ([20581, 24247],
     [[20581, 24247], [21307, 30103], [36816, 21160], [20859, 29983], [24515, 29702]]),
    ([31185, 25216],
     [[31185, 25216], [31185, 23398], [21019, 26032], [26410, 26469],
      [20154, 24037, 26234, 33021], [20114, 32852, 32593]])]"

definition default_category :: ustr where
  "default_category = [20854, 20182]"

text \<open>The two nested \<open>for\<close> loops; \<open>return category\<close> leaves both at the first hit.\<close>

fun keyword_loop :: "ustr \<Rightarrow> ustr list \<Rightarrow> bool" where
  "keyword_loop text [] = False"
| "keyword_loop text (k # ks) = (if contains k text then True else keyword_loop text ks)"

fun category_loop :: "ustr \<Rightarrow> (ustr \<times> ustr list) list \<Rightarrow> ustr option" where
  "category_loop text [] = None"
| "category_loop text ((category, keywords) # rest) =
     (if keyword_loop text keywords then Some category else category_loop text rest)"

text \<open>
  \<open>str.lower\<close> is the interpreter's and is passed in as \<open>lower\<close>.
\<close>

definition categorize_article :: "(ustr \<Rightarrow> ustr) \<Rightarrow> ustr \<Rightarrow> ustr \<Rightarrow> ustr" where
  "categorize_article lower title description =
     (let text = lower (title @ u '' '' @ description)
      in case category_loop text categories of
           Some category \<Rightarrow> category
         | None \<Rightarrow> default_category)"

text \<open>
  The classifier as the specification words it: the first table entry one of whose
  keywords is a substring of the lowered text, else the default.
\<close>

definition classify_spec :: "(ustr \<Rightarrow> ustr) \<Rightarrow> ustr \<Rightarrow> ustr \<Rightarrow> ustr \<Rightarrow> ustr" where
  "classify_spec lower dflt title description =
     (case find (\<lambda>(category, keywords). \<exists>k \<in> set keywords.
                     sublist k (lower (title @ u '' '' @ description))) categories of
        Some (category, keywords) \<Rightarrow> category
      | None \<Rightarrow> dflt)"

section \<open>spiders/wechat.py: the HTML normalizer\<close>

subsection \<open>The regular expressions of \<open>clean_html_content\<close>\<close>

text \<open>
  \<open>ci_eq p c\<close>: the code point \<open>c\<close> matches the pattern character \<open>p\<close> (a lower-case
  ASCII letter or a character without case) under \<open>re.IGNORECASE\<close>. Besides the two
  ASCII cases, the \<open>re\<close> module lets \<open>s\<close> match U+017F, \<open>i\<close> match U+0130 and U+0131,
  and \<open>k\<close> match U+212A.
\<close>

definition ci_eq :: "nat \<Rightarrow> nat \<Rightarrow> bool" where
  "ci_eq p c \<longleftrightarrow>
     c = p \<or> (97 \<le> p \<and> p \<le> 122 \<and> c + 32 = p) \<or> (p = 115 \<and> c = 383) \<or>
     (p = 105 \<and> (c = 304 \<or> c = 305)) \<or> (p = 107 \<and> c = 8490)"

text \<open>A literal piece of a pattern matches at the start of the text.\<close>

fun lit_at :: "(nat \<Rightarrow> nat \<Rightarrow> bool) \<Rightarrow> ustr \<Rightarrow> ustr \<Rightarrow> bool" where
  "lit_at eq [] s = True"
| "lit_at eq (p # ps) [] = False"
| "lit_at eq (p # ps) (c # cs) = (eq p c \<and> lit_at eq ps cs)"

text \<open>
  \<open>.*?\<close> (with \<open>re.DOTALL\<close>) or \<open>[^>]*\<close> followed by a literal: the text up to and
  including the first place where the literal matches. The result is the number of
  characters consumed.
\<close>

fun find_end :: "(nat \<Rightarrow> nat \<Rightarrow> bool) \<Rightarrow> ustr \<Rightarrow> ustr \<Rightarrow> nat option" where
  "find_end eq lit [] = (if lit = [] then Some 0 else None)"
| "find_end eq lit (c # cs) =
     (if lit_at eq lit (c # cs) then Some (length lit)
      else map_option Suc (find_end eq lit cs))"

fun chain :: "(nat \<Rightarrow> nat \<Rightarrow> bool) \<Rightarrow> ustr list \<Rightarrow> ustr \<Rightarrow> nat option" where
  "chain eq [] s = Some 0"
| "chain eq (l # ls) s =
     (case find_end eq l s of
        None \<Rightarrow> None
      | Some n \<Rightarrow> map_option ((+) n) (chain eq ls (drop n s)))"

text \<open>
  A pattern \<open>l0 .*? l1 .*? ... ln\<close> tried at the start of the text: the length of the
  match, if there is one. A lazy gap ends at the first occurrence of the literal after
  it; if the rest of the pattern fails from there it fails from every later occurrence.
\<close>

definition m_seq :: "(nat \<Rightarrow> nat \<Rightarrow> bool) \<Rightarrow> ustr \<Rightarrow> ustr list \<Rightarrow> ustr \<Rightarrow> nat option" where
  "m_seq eq l0 ls s =
     (if lit_at eq l0 s then map_option ((+) (length l0)) (chain eq ls (drop (length l0) s))
      else None)"

text \<open>\<open><[^>]+>\<close>: a \<open><\<close>, at least one character other than \<open>>\<close>, then the first \<open>>\<close>.\<close>

definition m_tag :: "ustr \<Rightarrow> nat option" where
  "m_tag s =
     (case s of
        c0 # c1 # rest \<Rightarrow>
          if c0 = 60 \<and> c1 \<noteq> 62 then map_option (\<lambda>n. n + 2) (find_end (=) [62] rest) else None
      | _ \<Rightarrow> None)"

text \<open>
  \<open>\n\s*\n\<close>: a newline, then the whitespace that follows up to its last newline (the
  greedy \<open>\s*\<close> takes the whole run and gives back until a newline ends the match).
\<close>

definition m_blank :: "ustr \<Rightarrow> nat option" where
  "m_blank s =
     (case s of
        [] \<Rightarrow> None
      | c # cs \<Rightarrow>
          if c = 10 then
            (let ws = takeWhile isspace cs;
                 k = length ws - length (takeWhile (\<lambda>c. c \<noteq> 10) (rev ws))
             in if k = 0 then None else Some (Suc k))
          else None)"

text \<open>
  \<open>re.sub(pattern, repl, s)\<close> for a pattern that matches no empty string: scan from the
  left; where the pattern matches \<open>n\<close> characters, emit \<open>repl\<close> and skip them, else copy
  one character. The second argument counts the characters still to skip.
\<close>

fun sub_scan :: "(ustr \<Rightarrow> nat option) \<Rightarrow> ustr \<Rightarrow> nat \<Rightarrow> ustr \<Rightarrow> ustr" where
  "sub_scan m repl k [] = []"
| "sub_scan m repl (Suc k) (c # cs) = sub_scan m repl k cs"
| "sub_scan m repl 0 (c # cs) =
     (case m (c # cs) of
        Some n \<Rightarrow> repl @ sub_scan m repl (n - 1) cs
      | None \<Rightarrow> c # sub_scan m repl 0 cs)"

definition re_sub :: "(ustr \<Rightarrow> nat option) \<Rightarrow> ustr \<Rightarrow> ustr \<Rightarrow> ustr" where
  "re_sub m repl s = sub_scan m repl 0 s"

subsection \<open>\<open>clean_html_content\<close>\<close>

definition remove_scripts :: "ustr \<Rightarrow> ustr" where
  "remove_scripts = re_sub (m_seq ci_eq (u ''<script'') [u ''>'', u ''</script>'']) []"

definition remove_styles :: "ustr \<Rightarrow> ustr" where
  "remove_styles = re_sub (m_seq ci_eq (u ''<style'') [u ''>'', u ''</style>'']) []"

definition remove_comments :: "ustr \<Rightarrow> ustr" where
  "remove_comments = re_sub (m_seq (=) (u ''<!--'') [u ''-->'']) []"

definition break_lines :: "ustr \<Rightarrow> ustr" where
  "break_lines s =
     (let s1 = re_sub (m_seq ci_eq (u ''<br'') [u ''>'']) [10] s;
          s2 = re_sub (m_seq ci_eq (u ''<p'') [u ''>'']) [10] s1;
          s3 = re_sub (m_seq ci_eq (u ''</p>'') []) [10] s2;
          s4 = re_sub (m_seq ci_eq (u ''<div'') [u ''>'']) [10] s3
      in re_sub (m_seq ci_eq (u ''</div>'') []) [10] s4)"

definition strip_tags :: "ustr \<Rightarrow> ustr" where
  "strip_tags = re_sub m_tag []"

definition collapse_blank :: "ustr \<Rightarrow> ustr" where
  "collapse_blank = re_sub m_blank [10, 10]"

definition clean_html_content :: "ustr \<Rightarrow> ustr" where
  "clean_html_content html_content =
     strip (collapse_blank (strip_tags (break_lines
       (remove_comments (remove_styles (remove_scripts html_content))))))"

text \<open>A text without HTML tags: the tag pattern \<open><[^>]+>\<close> matches at no position.\<close>

fun no_tags :: "ustr \<Rightarrow> bool" where
  "no_tags [] = True"
| "no_tags (c # cs) = (m_tag (c # cs) = None \<and> no_tags cs)"


section \<open>spiders/wechat.py: the article page\<close>

datatype selector = JsContent | RichMediaContent | ContentClass | ArticleTag

definition content_selectors :: "selector list" where
  "content_selectors = [JsContent, RichMediaContent, ContentClass, ArticleTag]"

text \<open>
  What \<open>parse_article_content\<close> asks of a downloaded response: for each selector, the
  markup of the first element \<open>response.css(selector)\<close> finds (\<open>None\<close> when it finds
  none), and the results of \<open>extract_images\<close> and \<open>extract_videos\<close>. Each of them may
  raise.
\<close>

record page =
  css_get :: "selector \<Rightarrow> exn + ustr option"
  page_images :: "exn + ustr list"
  page_videos :: "exn + ustr list"

text \<open>The \<open>for selector in content_selectors\<close> loop, with its \<open>break\<close>.\<close>

fun select_content :: "page \<Rightarrow> selector list \<Rightarrow> exn + ustr" where
  "select_content p [] = Inr []"
| "select_content p (sel # sels) =
     (case css_get p sel of
        Inl e \<Rightarrow> Inl e
      | Inr (Some html) \<Rightarrow> Inr html
      | Inr None \<Rightarrow> select_content p sels)"

text \<open>
  The \<open>try\<close> block up to the \<open>yield\<close>: the exception raised, if any, and the item as the
  assignments made so far have left it (the item is updated in place).
\<close>

definition content_try :: "page \<Rightarrow> ustr \<Rightarrow> item \<Rightarrow> exn option \<times> item" where
  "content_try p now it =
     (case select_content p content_selectors of
        Inl e \<Rightarrow> (Some e, it)
      | Inr content \<Rightarrow>
          if content \<noteq> [] then
            (let it1 = it(''content'' \<mapsto> PStr (clean_html_content content)) in
             case page_images p of
               Inl e \<Rightarrow> (Some e, it1)
             | Inr imgs \<Rightarrow>
                 (let it2 = it1(''images'' \<mapsto> PList imgs) in
                  case page_videos p of
                    Inl e \<Rightarrow> (Some e, it2)
                  | Inr vids \<Rightarrow>
                      (let it3 = it2(''videos'' \<mapsto> PList vids, ''crawl_time'' \<mapsto> PDatetime now)
                       in if it3 ''title'' = None then (Some KeyError, it3) else (None, it3))))
          else
            (let it1 = it(''crawl_time'' \<mapsto> PDatetime now)
             in if it1 ''title'' = None then (Some KeyError, it1) else (None, it1)))"

datatype content_event = SuccessfullyParsed pyval | ErrorParsingContent exn

text \<open>\<open>parse_article_content\<close>: the items the generator yields, and what it logs.\<close>

definition parse_article_content :: "page \<Rightarrow> ustr \<Rightarrow> item \<Rightarrow> item list \<times> content_event list" where
  "parse_article_content p now it =
     (case content_try p now it of
        (None, it') \<Rightarrow> ([it'], [SuccessfullyParsed (item_get it' ''title'')])
      | (Some e, it') \<Rightarrow> ([it'], [ErrorParsingContent e]))"

text \<open>
  The engine's part: scrapy calls a request's callback with the response once it is
  downloaded. A download that fails goes to the request's errback, and the requests
  this spider builds carry none, so nothing is called for them.
\<close>

datatype 'r download = Downloaded 'r | DownloadFailed

definition deliver_content :: "ustr \<Rightarrow> request \<Rightarrow> page download \<Rightarrow> item list" where
  "deliver_content now req d =
     (case req of
        ArticleContentRequest url it \<Rightarrow>
          (case d of
             Downloaded p \<Rightarrow> fst (parse_article_content p now it)
           | DownloadFailed \<Rightarrow> [])
      | ArticleListRequest fake_id begin cnt \<Rightarrow> [])"

section \<open>app.py: progress\<close>

record crawler_manager =
  is_running :: bool
  current_task :: "ustr option"
  progress :: rat
  total_articles :: int
  crawled_articles :: int

definition CrawlerManager_init :: crawler_manager where
  "CrawlerManager_init =
     \<lparr>is_running = False, current_task = None, progress = 0, total_articles = 0,
      crawled_articles = 0\<rparr>"

datatype status = Crawling | Completed | Errored

record progress_event =
  ev_progress :: rat
  ev_crawled :: int
  ev_total :: int
  ev_current_article :: "pyval option"
  ev_status :: status

text \<open>\<open>start_crawling\<close>, without the thread it starts: the answer and the new state.\<close>

datatype start_message = AlreadyRunning | CrawlingStarted

definition start_crawling :: "crawler_manager \<Rightarrow> ustr \<Rightarrow> (bool \<times> start_message) \<times> crawler_manager" where
  "start_crawling m account_name =
     (if is_running m then ((False, AlreadyRunning), m)
      else ((True, CrawlingStarted),
            m\<lparr>is_running := True, current_task := Some account_name, progress := 0,
              crawled_articles := 0\<rparr>))"

text \<open>
  \<open>SocketIOWechatSpider.process_item\<close>. The quotient is Python's true division; it is
  kept exact here.
\<close>

definition SocketIOWechatSpider_process_item ::
  "crawler_manager \<Rightarrow> item \<Rightarrow> crawler_manager \<times> progress_event" where
  "SocketIOWechatSpider_process_item m it =
     (let crawled = crawled_articles m + 1;
          pr = (of_int crawled / of_int (max (total_articles m) 1)) * 100
      in (m\<lparr>crawled_articles := crawled, progress := pr\<rparr>,
          \<lparr>ev_progress = pr, ev_crawled = crawled, ev_total = total_articles m,
           ev_current_article = Some (case it ''title'' of None \<Rightarrow> PStr [] | Some v \<Rightarrow> v),
           ev_status = Crawling\<rparr>))"

text \<open>
  \<open>_crawl_articles\<close> for a crawl that ends normally. \<open>process.start()\<close> runs the spider;
  every item it yields goes through the installed pipeline chain. \<open>process_item\<close> above
  is a method of the spider class, not an entry of \<open>ITEM_PIPELINES\<close>, so the crawl does
  not call it. After the crawl the manager emits the closing event.
\<close>

fun run_items ::
  "'s es_index \<Rightarrow> (ustr \<Rightarrow> int option) \<Rightarrow> pipeline list \<Rightarrow> 's world \<Rightarrow> item list \<Rightarrow> 's world" where
  "run_items index int_of_str ps w [] = w"
| "run_items index int_of_str ps w (it # its) =
     run_items index int_of_str ps (snd (run_chain index int_of_str ps w it)) its"

definition crawl_articles ::
  "'s es_index \<Rightarrow> (ustr \<Rightarrow> int option) \<Rightarrow> item_pipelines \<Rightarrow> crawler_manager \<Rightarrow> 's world \<Rightarrow> item list
     \<Rightarrow> crawler_manager \<times> 's world \<times> progress_event list" where
  "crawl_articles index int_of_str project m w yielded =
     (let w' = run_items index int_of_str (build_chain (crawl_articles_pipelines project)) w yielded;
          m' = m\<lparr>is_running := False\<rparr>
      in (m', w',
          [\<lparr>ev_progress = 100, ev_crawled = crawled_articles m', ev_total = total_articles m',
            ev_current_article = None, ev_status = Completed\<rparr>]))"

section \<open>Example inputs\<close>

definition first_copy :: item where
  "first_copy = [''article_id'' \<mapsto> PStr (u ''a1''), ''title'' \<mapsto> PStr (u ''first'')]"

definition second_copy :: item where
  "second_copy = [''article_id'' \<mapsto> PStr (u ''a1''), ''title'' \<mapsto> PStr (u ''second'')]"

definition no_content_item :: item where
  "no_content_item = [''article_id'' \<mapsto> PStr (u ''a2''), ''title'' \<mapsto> PStr (u ''t''),
                      ''url'' \<mapsto> PStr (u ''x''), ''content'' \<mapsto> PStr []]"

definition blank_title_item :: item where
  "blank_title_item = [''title'' \<mapsto> PStr (u '' ''), ''content'' \<mapsto> PStr (u ''c''),
                       ''url'' \<mapsto> PStr (u ''x'')]"

text \<open>A search index that keeps every document it is given, in order.\<close>

definition list_index :: "(item list) es_index" where
  "list_index s i d = Inr (s @ [d])"

definition empty_world :: "(item list) world" where
  "empty_world = \<lparr>mongo = \<lparr>db = Some [], alive = True\<rparr>, es = Some [], logs = []\<rparr>"

definition stored_first_world :: "(item list) world" where
  "stored_first_world =
     \<lparr>mongo = \<lparr>db = Some [to_doc first_copy], alive = True\<rparr>, es = Some [], logs = []\<rparr>"

text \<open>A source with 7 entries, served 5 to a page.\<close>

definition seven_in_two_pages :: "int \<Rightarrow> nat response" where
  "seven_in_two_pages b =
     (if b = 0 then Json \<lparr>success = PBool True, app_msg_list = [1, 2, 3, 4, 5], total_page_cnt = Some 7\<rparr>
      else if b = 5 then Json \<lparr>success = PBool True, app_msg_list = [6, 7], total_page_cnt = Some 7\<rparr>
      else Json \<lparr>success = PBool True, app_msg_list = [], total_page_cnt = Some 7\<rparr>)"

text \<open>
  Entries that parse to an item with a link, entries that parse to an item without one,
  and a scheme test that looks for \<open>://\<close>.
\<close>

definition linked_entry :: "nat \<Rightarrow> ustr \<Rightarrow> item option" where
  "linked_entry a f =
     Some [''article_id'' \<mapsto> PInt (int a), ''account_id'' \<mapsto> PStr f,
           ''url'' \<mapsto> PStr (u ''https://mp.weixin.qq.com/s/x'')]"

definition linkless_entry :: "nat \<Rightarrow> ustr \<Rightarrow> item option" where
  "linkless_entry a f =
     Some [''article_id'' \<mapsto> PInt (int a), ''account_id'' \<mapsto> PStr f, ''url'' \<mapsto> PStr []]"

definition scheme_sep :: "ustr \<Rightarrow> bool" where
  "scheme_sep s = contains (u ''://'') s"

text \<open>A page whose content is found and whose image extraction raises.\<close>

definition images_fail_page :: page where
  "images_fail_page =
     \<lparr>css_get = (\<lambda>sel. Inr (Some (u ''<p>text</p>''))),
      page_images = Inl NotSupported, page_videos = Inr []\<rparr>"

definition third_item :: item where
  "third_item = [''article_id'' \<mapsto> PStr (u ''a3''), ''title'' \<mapsto> PStr (u ''third'')]"

text \<open>A text without tags: two lines around a blank line that holds a space.\<close>

definition two_paragraphs :: ustr where
  "two_paragraphs = u ''a > b'' @ [10, 32, 10, 10] @ u ''c < d '' "

section \<open>Properties of the pipeline stages\<close>

lemma to_doc_get_str: "item_get it k = PStr s \<Longrightarrow> item_get (to_doc it) k = PStr s"
  by (auto simp: item_get_def to_doc_def split: option.splits pyval.splits)

lemma mongo_first_insert:
  "db m = Some docs \<Longrightarrow> alive m \<Longrightarrow>
   find (\<lambda>d. item_get d ''article_id'' = item_get it ''article_id'') docs = None \<Longrightarrow>
   MongoPipeline_process_item m lg it =
     (Inr it, m\<lparr>db := Some (docs @ [to_doc it])\<rparr>, lg @ [(Info, ArticleSaved (item_get it ''title''))])"
  by (simp add: MongoPipeline_process_item_def mongo_try_def find_one_def insert_one_def)

lemma mongo_duplicate:
  "db m = Some docs \<Longrightarrow> alive m \<Longrightarrow>
   find (\<lambda>d. item_get d ''article_id'' = item_get it ''article_id'') docs = Some d \<Longrightarrow>
   MongoPipeline_process_item m lg it =
     (Inl (DropItem (ErrorSaving (DropItem (DuplicateFound (item_get it ''title''))))), m,
      lg @ [(Debug, ArticleAlreadyExists (item_get it ''title'')),
            (Error, ErrorSavingMongo (DropItem (DuplicateFound (item_get it ''title''))))])"
  by (simp add: MongoPipeline_process_item_def mongo_try_def find_one_def)

lemma first_copy_fields:
  "item_get first_copy ''article_id'' = PStr (u ''a1'')"
  "item_get first_copy ''title'' = PStr (u ''first'')"
  "item_get (to_doc first_copy) ''article_id'' = PStr (u ''a1'')"
  by (simp_all add: item_get_def first_copy_def to_doc_def)

lemma second_copy_fields:
  "item_get second_copy ''article_id'' = PStr (u ''a1'')"
  "item_get second_copy ''title'' = PStr (u ''second'')"
  by (simp_all add: item_get_def second_copy_def)

lemma no_content_item_fields:
  "item_get no_content_item ''article_id'' = PStr (u ''a2'')"
  "item_get no_content_item ''title'' = PStr (u ''t'')"
  "item_get no_content_item ''content'' = PStr []"
  "item_get no_content_item ''url'' = PStr (u ''x'')"
  "item_get (to_doc no_content_item) ''article_id'' = PStr (u ''a2'')"
  by (simp_all add: item_get_def no_content_item_def to_doc_def)

text \<open>
  C1, as stated, fails twice. A title of one blank is empty after trimming, and the
  Validation stage returns the record instead of dropping it. And a record that the
  Validation stage would drop does reach the document store on the chain that
  \<open>_crawl_articles\<close> installs, because the stage is not part of that chain.
\<close>

theorem validation_blank_title_passes:
  "strip (u '' '') = [] \<and> item_get blank_title_item ''title'' = PStr (u '' '') \<and>
   ValidationPipeline_process_item blank_title_item = Inr blank_title_item \<and>
   ValidationPipeline_process_item no_content_item = Inl (DropItem MissingContent) \<and>
   db (mongo (snd (run_chain list_index (\<lambda>s. None) (build_chain (crawl_articles_pipelines []))
                     empty_world no_content_item)))
     = Some [to_doc no_content_item]"
proof -
  have "strip (u '' '') = [] \<and> item_get blank_title_item ''title'' = PStr (u '' '') \<and>
        ValidationPipeline_process_item blank_title_item = Inr blank_title_item"
    by (simp add: strip_def u_def isspace_def ValidationPipeline_process_item_def item_get_def
        blank_title_item_def)
  moreover have "ValidationPipeline_process_item no_content_item = Inl (DropItem MissingContent)"
    by (simp add: ValidationPipeline_process_item_def no_content_item_fields u_def)
  moreover have "MongoPipeline_process_item (mongo empty_world) (logs empty_world) no_content_item =
     (Inr no_content_item, (mongo empty_world)\<lparr>db := Some ([] @ [to_doc no_content_item])\<rparr>,
      logs empty_world @ [(Info, ArticleSaved (item_get no_content_item ''title''))])"
    by (rule mongo_first_insert) (simp_all add: empty_world_def)
  then have "db (mongo (snd (run_chain list_index (\<lambda>s. None)
                 (build_chain (crawl_articles_pipelines [])) empty_world no_content_item)))
     = Some [to_doc no_content_item]"
    by (simp add: build_chain_def crawl_articles_pipelines_def process_stage_def
        ElasticsearchPipeline_process_item_def es_try_def list_index_def empty_world_def Let_def)
  ultimately show ?thesis by blast
qed

text \<open>
  C1 (amended): the Validation stage drops a record (raises \<open>DropItem\<close>) if and only if
  its title, content or url is missing or falsy as it stands, with no trimming; and a
  record the stage drops at the head of a chain reaches no later stage, so the document
  store and the search index stay as they were.
\<close>

theorem validation_drops_iff_falsy:
  "(isl (ValidationPipeline_process_item it) \<longleftrightarrow>
      \<not> (truthy (item_get it ''title'') \<and> truthy (item_get it ''content'') \<and> truthy (item_get it ''url'')))
   \<and> (\<forall>e. ValidationPipeline_process_item it = Inl e \<longrightarrow>
          (\<exists>m. e = DropItem m) \<and>
          run_chain index int_of_str (ValidationPipeline # ps) w it = (Inl e, w))"
  by (auto simp: ValidationPipeline_process_item_def process_stage_def)

theorem validation_drops_iff_falsy_witness:
  "isl (ValidationPipeline_process_item no_content_item) \<and>
   ValidationPipeline_process_item no_content_item = Inl (DropItem MissingContent) \<and>
   run_chain list_index (\<lambda>s. None) [ValidationPipeline, MongoPipeline, ElasticsearchPipeline]
      empty_world no_content_item
   = (Inl (DropItem MissingContent), empty_world)"
  using validation_drops_iff_falsy [of no_content_item list_index "\<lambda>s. None"
      "[MongoPipeline, ElasticsearchPipeline]" empty_world]
  by (simp add: ValidationPipeline_process_item_def no_content_item_fields u_def)

text \<open>
  C2 at two records with the same \<open>article_id\<close>: the store keeps exactly the first, but
  the second takes the store-error path. The \<open>DropItem\<close> for the duplicate is caught by the
  stage's own \<open>except Exception\<close>, logged at error level as a failure to save, and
  replaced by the \<open>DropItem\<close> of a failed save.
\<close>

theorem mongo_duplicate_takes_error_path:
  "MongoPipeline_process_item \<lparr>db = Some [], alive = True\<rparr> [] first_copy =
     (Inr first_copy, \<lparr>db = Some [to_doc first_copy], alive = True\<rparr>,
      [(Info, ArticleSaved (PStr (u ''first'')))])
   \<and> MongoPipeline_process_item \<lparr>db = Some [to_doc first_copy], alive = True\<rparr> [] second_copy =
     (Inl (DropItem (ErrorSaving (DropItem (DuplicateFound (PStr (u ''second'')))))),
      \<lparr>db = Some [to_doc first_copy], alive = True\<rparr>,
      [(Debug, ArticleAlreadyExists (PStr (u ''second''))),
       (Error, ErrorSavingMongo (DropItem (DuplicateFound (PStr (u ''second'')))))])"
  by (simp add: MongoPipeline_process_item_def mongo_try_def find_one_def insert_one_def
      first_copy_fields second_copy_fields)

text \<open>
  C3: whatever the search-index client does (no client at all, or an \<open>index\<close> call that
  raises), \<open>ElasticsearchPipeline.process_item\<close> returns the record it was given,
  unchanged; it never raises.
\<close>

theorem es_failure_swallowed:
  "fst (ElasticsearchPipeline_process_item index client lg it) = Inr it"
  by (simp add: ElasticsearchPipeline_process_item_def es_try_def Let_def
           split: option.splits sum.splits prod.splits)

text \<open>
  C10, as stated, fails: on the chain the control surface installs, a record whose
  \<open>article_id\<close> is already stored is stopped by the document-store stage and is never
  passed to the search index.
\<close>

theorem app_chain_duplicate_skips_index:
  "snd (run_chain list_index (\<lambda>s. None) (build_chain (crawl_articles_pipelines []))
          \<lparr>mongo = \<lparr>db = Some [to_doc first_copy], alive = True\<rparr>, es = Some [], logs = []\<rparr>
          second_copy)
   = \<lparr>mongo = \<lparr>db = Some [to_doc first_copy], alive = True\<rparr>, es = Some [],
      logs = [(Debug, ArticleAlreadyExists (PStr (u ''second''))),
              (Error, ErrorSavingMongo (DropItem (DuplicateFound (PStr (u ''second'')))))]\<rparr>"
  by (simp add: build_chain_def crawl_articles_pipelines_def process_stage_def
      MongoPipeline_process_item_def mongo_try_def find_one_def first_copy_fields second_copy_fields)

lemma mongo_failed_save:
  "db m = None \<or> \<not> alive m \<Longrightarrow>
   \<exists>e. MongoPipeline_process_item m lg it =
         (Inl (DropItem (ErrorSaving e)), m, lg @ [(Error, ErrorSavingMongo e)])"
  by (cases "db m") (auto simp: MongoPipeline_process_item_def mongo_try_def find_one_def)

lemma es_stage_outcome:
  "ElasticsearchPipeline_process_item index c lg it =
     (Inr it,
      (case c of
         None \<Rightarrow> None
       | Some s \<Rightarrow>
           (case index s (item_get (to_doc it) ''article_id'') (to_doc it) of
              Inl e \<Rightarrow> Some s
            | Inr s' \<Rightarrow> Some s')),
      snd (snd (ElasticsearchPipeline_process_item index c lg it)))"
  by (simp add: ElasticsearchPipeline_process_item_def es_try_def Let_def
      split: option.splits sum.splits)

lemma crawl_item_unfold:
  "crawl_item index int_of_str project w it =
     (case MongoPipeline_process_item (mongo w) (logs w) it of
        (Inl e, m', lg') \<Rightarrow> (Inl e, w\<lparr>mongo := m', logs := lg'\<rparr>)
      | (Inr it', m', lg') \<Rightarrow>
          (case ElasticsearchPipeline_process_item index (es w) lg' it' of
             (r, c', lg'') \<Rightarrow> (r, w\<lparr>mongo := m', es := c', logs := lg''\<rparr>)))"
  by (simp add: crawl_item_def build_chain_def crawl_articles_pipelines_def process_stage_def
      split: prod.splits sum.splits)

text \<open>
  C10 (amended): whatever the project settings say, the chain installed by the start
  operation is exactly the document-store stage followed by the search-index stage;
  Validation and Cleaning are not in it, so every yielded record is handed as it is to
  the document-store stage. A record whose \<open>article_id\<close> is not yet stored is inserted
  into the document store as it is (empty content and unparsed fields included) and
  then handed to the search-index stage, which writes it when there is an index client
  and its call succeeds, and otherwise leaves the index as it was; the record counts as
  processed either way. A record whose \<open>article_id\<close> is already stored, or whose save
  fails, stops at the document-store stage and changes neither sink.
\<close>

theorem app_chain_is_mongo_then_es:
  "build_chain (crawl_articles_pipelines project) = [MongoPipeline, ElasticsearchPipeline]
   \<and> (db (mongo w) = Some docs \<and> alive (mongo w) \<and>
        find (\<lambda>d. item_get d ''article_id'' = item_get it ''article_id'') docs = None \<longrightarrow>
        fst (crawl_item index int_of_str project w it) = Inr it \<and>
        mongo (snd (crawl_item index int_of_str project w it))
          = (mongo w)\<lparr>db := Some (docs @ [to_doc it])\<rparr> \<and>
        es (snd (crawl_item index int_of_str project w it))
          = (case es w of
               None \<Rightarrow> None
             | Some s \<Rightarrow>
                 (case index s (item_get (to_doc it) ''article_id'') (to_doc it) of
                    Inl e \<Rightarrow> Some s
                  | Inr s' \<Rightarrow> Some s')))
   \<and> (db (mongo w) = Some docs \<and> alive (mongo w) \<and>
        find (\<lambda>d. item_get d ''article_id'' = item_get it ''article_id'') docs \<noteq> None \<longrightarrow>
        isl (fst (crawl_item index int_of_str project w it)) \<and>
        mongo (snd (crawl_item index int_of_str project w it)) = mongo w \<and>
        es (snd (crawl_item index int_of_str project w it)) = es w)
   \<and> (db (mongo w) = None \<or> \<not> alive (mongo w) \<longrightarrow>
        isl (fst (crawl_item index int_of_str project w it)) \<and>
        mongo (snd (crawl_item index int_of_str project w it)) = mongo w \<and>
        es (snd (crawl_item index int_of_str project w it)) = es w)"
proof (intro conjI impI)
  show "build_chain (crawl_articles_pipelines project) = [MongoPipeline, ElasticsearchPipeline]"
    by (simp add: build_chain_def crawl_articles_pipelines_def)
next
  assume a: "db (mongo w) = Some docs \<and> alive (mongo w) \<and>
        find (\<lambda>d. item_get d ''article_id'' = item_get it ''article_id'') docs = None"
  then have m: "MongoPipeline_process_item (mongo w) (logs w) it =
     (Inr it, (mongo w)\<lparr>db := Some (docs @ [to_doc it])\<rparr>,
      logs w @ [(Info, ArticleSaved (item_get it ''title''))])"
    by (intro mongo_first_insert) simp_all
  note e = es_stage_outcome [of index "es w" "logs w @ [(Info, ArticleSaved (item_get it ''title''))]" it]
  show "fst (crawl_item index int_of_str project w it) = Inr it"
    by (subst crawl_item_unfold, simp only: m prod.case sum.case, subst e, simp)
  show "mongo (snd (crawl_item index int_of_str project w it))
          = (mongo w)\<lparr>db := Some (docs @ [to_doc it])\<rparr>"
    by (subst crawl_item_unfold, simp only: m prod.case sum.case, subst e, simp)
  show "es (snd (crawl_item index int_of_str project w it))
          = (case es w of
               None \<Rightarrow> None
             | Some s \<Rightarrow>
                 (case index s (item_get (to_doc it) ''article_id'') (to_doc it) of
                    Inl e \<Rightarrow> Some s
                  | Inr s' \<Rightarrow> Some s'))"
    by (subst crawl_item_unfold, simp only: m prod.case sum.case, subst e, simp)
next
  assume a: "db (mongo w) = Some docs \<and> alive (mongo w) \<and>
        find (\<lambda>d. item_get d ''article_id'' = item_get it ''article_id'') docs \<noteq> None"
  then obtain d where "find (\<lambda>d. item_get d ''article_id'' = item_get it ''article_id'') docs = Some d"
    by auto
  with a have m: "MongoPipeline_process_item (mongo w) (logs w) it =
     (Inl (DropItem (ErrorSaving (DropItem (DuplicateFound (item_get it ''title''))))), mongo w,
      logs w @ [(Debug, ArticleAlreadyExists (item_get it ''title'')),
                (Error, ErrorSavingMongo (DropItem (DuplicateFound (item_get it ''title''))))])"
    by (intro mongo_duplicate) simp_all
  show "isl (fst (crawl_item index int_of_str project w it))"
    "mongo (snd (crawl_item index int_of_str project w it)) = mongo w"
    "es (snd (crawl_item index int_of_str project w it)) = es w"
    by (simp_all add: crawl_item_unfold m)
next
  assume "db (mongo w) = None \<or> \<not> alive (mongo w)"
  then obtain e where m: "MongoPipeline_process_item (mongo w) (logs w) it =
         (Inl (DropItem (ErrorSaving e)), mongo w, logs w @ [(Error, ErrorSavingMongo e)])"
    using mongo_failed_save by blast
  show "isl (fst (crawl_item index int_of_str project w it))"
    "mongo (snd (crawl_item index int_of_str project w it)) = mongo w"
    "es (snd (crawl_item index int_of_str project w it)) = es w"
    by (simp_all add: crawl_item_unfold m)
qed

theorem app_chain_is_mongo_then_es_witness:
  "\<not> truthy (item_get no_content_item ''content'')
   \<and> fst (crawl_item list_index (\<lambda>s. None) [(ValidationPipeline, 100), (CleaningPipeline, 200)]
             empty_world no_content_item) = Inr no_content_item
   \<and> db (mongo (snd (crawl_item list_index (\<lambda>s. None) [(ValidationPipeline, 100), (CleaningPipeline, 200)]
             empty_world no_content_item))) = Some [to_doc no_content_item]
   \<and> es (snd (crawl_item list_index (\<lambda>s. None) [(ValidationPipeline, 100), (CleaningPipeline, 200)]
             empty_world no_content_item)) = Some [to_doc no_content_item]
   \<and> db (mongo (snd (crawl_item list_index (\<lambda>s. None) [] (empty_world\<lparr>es := None\<rparr>) no_content_item)))
        = Some [to_doc no_content_item]
   \<and> es (snd (crawl_item list_index (\<lambda>s. None) [] (empty_world\<lparr>es := None\<rparr>) no_content_item)) = None
   \<and> isl (fst (crawl_item list_index (\<lambda>s. None) [] stored_first_world second_copy))
   \<and> snd (crawl_item list_index (\<lambda>s. None) [] stored_first_world second_copy)
        = stored_first_world\<lparr>logs := logs (snd (crawl_item list_index (\<lambda>s. None) [] stored_first_world second_copy))\<rparr>
   \<and> isl (fst (crawl_item list_index (\<lambda>s. None) [] (empty_world\<lparr>mongo := \<lparr>db = None, alive = True\<rparr>\<rparr>) first_copy))
   \<and> es (snd (crawl_item list_index (\<lambda>s. None) [] (empty_world\<lparr>mongo := \<lparr>db = None, alive = True\<rparr>\<rparr>) first_copy))
        = Some []"
proof -
  let ?P = "[(ValidationPipeline, 100), (CleaningPipeline, 200)]"
  have c: "\<not> truthy (item_get no_content_item ''content'')"
    by (simp add: no_content_item_fields)
  note t1 = app_chain_is_mongo_then_es [where w = empty_world and docs = "[]"
      and it = no_content_item and index = list_index and project = ?P and int_of_str = "\<lambda>s. None"]
  have h1: "db (mongo empty_world) = Some [] \<and> alive (mongo empty_world) \<and>
        find (\<lambda>d. item_get d ''article_id'' = item_get no_content_item ''article_id'') [] = None"
    by (simp add: empty_world_def)
  from t1 h1 have r1:
    "fst (crawl_item list_index (\<lambda>s. None) ?P empty_world no_content_item) = Inr no_content_item"
    "mongo (snd (crawl_item list_index (\<lambda>s. None) ?P empty_world no_content_item))
          = (mongo empty_world)\<lparr>db := Some ([] @ [to_doc no_content_item])\<rparr>"
    "es (snd (crawl_item list_index (\<lambda>s. None) ?P empty_world no_content_item))
          = (case es empty_world of
               None \<Rightarrow> None
             | Some s \<Rightarrow>
                 (case list_index s (item_get (to_doc no_content_item) ''article_id'') (to_doc no_content_item) of
                    Inl e \<Rightarrow> Some s
                  | Inr s' \<Rightarrow> Some s'))"
    by blast+
  let ?w2 = "empty_world\<lparr>es := None\<rparr>"
  note t2 = app_chain_is_mongo_then_es [where w = ?w2 and docs = "[]"
      and it = no_content_item and index = list_index and project = "[]" and int_of_str = "\<lambda>s. None"]
  have h2: "db (mongo ?w2) = Some [] \<and> alive (mongo ?w2) \<and>
        find (\<lambda>d. item_get d ''article_id'' = item_get no_content_item ''article_id'') [] = None"
    by (simp add: empty_world_def)
  from t2 h2 have r2:
    "mongo (snd (crawl_item list_index (\<lambda>s. None) [] ?w2 no_content_item))
          = (mongo ?w2)\<lparr>db := Some ([] @ [to_doc no_content_item])\<rparr>"
    "es (snd (crawl_item list_index (\<lambda>s. None) [] ?w2 no_content_item))
          = (case es ?w2 of
               None \<Rightarrow> None
             | Some s \<Rightarrow>
                 (case list_index s (item_get (to_doc no_content_item) ''article_id'') (to_doc no_content_item) of
                    Inl e \<Rightarrow> Some s
                  | Inr s' \<Rightarrow> Some s'))"
    by blast+
  note t3 = app_chain_is_mongo_then_es [where w = stored_first_world and docs = "[to_doc first_copy]"
      and it = second_copy and index = list_index and project = "[]" and int_of_str = "\<lambda>s. None"]
  have h3: "db (mongo stored_first_world) = Some [to_doc first_copy] \<and> alive (mongo stored_first_world) \<and>
        find (\<lambda>d. item_get d ''article_id'' = item_get second_copy ''article_id'') [to_doc first_copy] \<noteq> None"
    by (simp add: stored_first_world_def first_copy_fields second_copy_fields)
  from t3 h3 have r3:
    "isl (fst (crawl_item list_index (\<lambda>s. None) [] stored_first_world second_copy))"
    "mongo (snd (crawl_item list_index (\<lambda>s. None) [] stored_first_world second_copy)) = mongo stored_first_world"
    "es (snd (crawl_item list_index (\<lambda>s. None) [] stored_first_world second_copy)) = es stored_first_world"
    by blast+
  let ?w4 = "empty_world\<lparr>mongo := \<lparr>db = None, alive = True\<rparr>\<rparr>"
  note t4 = app_chain_is_mongo_then_es [where w = ?w4 and docs = "[]"
      and it = first_copy and index = list_index and project = "[]" and int_of_str = "\<lambda>s. None"]
  have h4: "db (mongo ?w4) = None \<or> \<not> alive (mongo ?w4)" by simp
  from t4 h4 have r4:
    "isl (fst (crawl_item list_index (\<lambda>s. None) [] ?w4 first_copy))"
    "es (snd (crawl_item list_index (\<lambda>s. None) [] ?w4 first_copy)) = es ?w4"
    by blast+
  have w3: "snd (crawl_item list_index (\<lambda>s. None) [] stored_first_world second_copy)
        = stored_first_world\<lparr>logs := logs (snd (crawl_item list_index (\<lambda>s. None) [] stored_first_world second_copy))\<rparr>"
    using r3(2,3) by (cases "snd (crawl_item list_index (\<lambda>s. None) [] stored_first_world second_copy)";
        cases stored_first_world) simp
  show ?thesis
    using c r1 r2 r3(1) w3 r4
    by (simp add: empty_world_def list_index_def)
qed

section \<open>Properties of the listing pages\<close>

lemma list_begins_append: "list_begins (xs @ ys) = list_begins xs @ list_begins ys"
  by (induction xs rule: list_begins.induct) auto

lemma content_loop_begins: "list_begins (fst (content_loop hs pad f as)) = []"
  by (induction as) (auto split: option.splits prod.splits)

lemma content_loop_step:
  "snd (content_loop hs pad f (a # as)) = None \<longleftrightarrow>
     entry_ok hs pad f a \<and> snd (content_loop hs pad f as) = None"
  by (auto simp: entry_ok_def split: option.splits prod.splits)

lemma content_loop_raises:
  "snd (content_loop hs pad f as) = None \<longleftrightarrow> list_all (entry_ok hs pad f) as"
proof (induction as)
  case Nil
  then show ?case by simp
next
  case (Cons a as)
  then show ?case by (simp add: content_loop_step del: content_loop.simps)
qed

lemma next_listing_request:
  "list_begins (fst (parse_article_list hs pad f b r)) =
     (if usable r \<and> entries_ok hs pad f r \<and> b + int (returned_count r) < reported_total r
      then [b + int (returned_count r)] else [])"
proof (cases r)
  case NotJson
  then show ?thesis by (simp add: parse_article_list_def usable_def)
next
  case (Json data)
  obtain reqs e where c: "content_loop hs pad f (app_msg_list data) = (reqs, e)"
    by (cases "content_loop hs pad f (app_msg_list data)")
  have b: "list_begins reqs = []" using content_loop_begins [of hs pad f "app_msg_list data"] c by simp
  have r: "e = None \<longleftrightarrow> list_all (entry_ok hs pad f) (app_msg_list data)"
    using content_loop_raises [of hs pad f "app_msg_list data"] c by simp
  show ?thesis
  proof (cases e)
    case None
    with r Json c b show ?thesis
      by (simp add: parse_article_list_def usable_def entries_ok_def returned_count_def
          reported_total_def Let_def list_begins_append create_article_request_def)
  next
    case (Some x)
    with r Json c b show ?thesis
      by (simp add: parse_article_list_def usable_def entries_ok_def Let_def)
  qed
qed

lemma crawl_pages_returns:
  "\<forall>b. reported_total (fetch b) \<le> T \<Longrightarrow> nat (T - b) < n \<Longrightarrow>
   \<exists>bs. crawl_pages n hs pad fetch f b = Some bs"
proof (induction n arbitrary: b)
  case 0
  then show ?case by simp
next
  case (Suc n)
  show ?case
  proof (cases "usable (fetch b) \<and> entries_ok hs pad f (fetch b) \<and>
                b + int (returned_count (fetch b)) < reported_total (fetch b)")
    case False
    then show ?thesis by (auto simp: next_listing_request)
  next
    case True
    let ?b' = "b + int (returned_count (fetch b))"
    from True have pos: "0 < returned_count (fetch b)"
      by (auto simp: usable_def returned_count_def split: response.splits)
    from True Suc.prems(1) have "?b' < T" by (meson less_le_trans)
    with pos Suc.prems(2) have "nat (T - ?b') < n" by linarith
    from Suc.IH [OF Suc.prems(1) this] obtain bs where "crawl_pages n hs pad fetch f ?b' = Some bs" ..
    with True show ?thesis by (simp add: next_listing_request)
  qed
qed

text \<open>
  C4, as stated, fails twice. A response that reports success with an empty entry
  list is taken as a failure, so no next page is requested although
  \<open>begin + returned_count < total_count\<close>. And on a page of five entries of which the
  first has no link, building the request for that entry raises, the generator ends
  there, and no next page is requested although \<open>0 + 5 < 7\<close>.
\<close>

theorem empty_page_stops_early:
  "(0::int) + int (returned_count (Json \<lparr>success = PBool True, app_msg_list = ([] :: nat list), total_page_cnt = Some 7\<rparr>)) < 7 \<and>
   parse_article_list scheme_sep linked_entry (u ''id'') 0
     (Json \<lparr>success = PBool True, app_msg_list = [], total_page_cnt = Some 7\<rparr>)
   = ([], [FailedToGetArticleList], None) \<and>
   (0::int) + int (returned_count (Json \<lparr>success = PBool True, app_msg_list = [1, 2, 3, 4, 5 :: nat], total_page_cnt = Some 7\<rparr>)) < 7 \<and>
   parse_article_list scheme_sep linkless_entry (u ''id'') 0
     (Json \<lparr>success = PBool True, app_msg_list = [1, 2, 3, 4, 5], total_page_cnt = Some 7\<rparr>)
   = ([], [], Some ValueError)"
  by (simp add: parse_article_list_def returned_count_def linkless_entry_def request_error_def)

text \<open>
  C4 (amended): a next page is requested if and only if the response decodes, reports
  success, holds at least one entry, every entry that parses gives a request scrapy
  accepts (its link is a \<open>str\<close> with a scheme), and
  \<open>begin + returned_count < total_count\<close>; its offset is then exactly
  \<open>begin + returned_count\<close>. When no response reports a total above \<open>T\<close>, the chain of
  page requests ends within \<open>T - begin + 1\<close> requests.
\<close>

theorem pagination_cursor:
  "list_begins (fst (parse_article_list hs pad f b r)) =
     (if usable r \<and> entries_ok hs pad f r \<and> b + int (returned_count r) < reported_total r
      then [b + int (returned_count r)] else [])
   \<and> ((\<forall>b'. reported_total (fetch b') \<le> T) \<longrightarrow>
        (\<exists>bs. crawl_pages (Suc (nat (T - b))) hs pad fetch f b = Some bs))"
  using next_listing_request [of hs pad f b r]
    crawl_pages_returns [of fetch T b "Suc (nat (T - b))" hs pad f]
  by blast

lemma seven_total: "reported_total (seven_in_two_pages b) \<le> 7"
  by (simp add: seven_in_two_pages_def reported_total_def)

lemma linked_entry_ok: "entry_ok scheme_sep linked_entry f a"
  by (simp add: entry_ok_def linked_entry_def request_error_def scheme_sep_def u_def)

theorem pagination_cursor_witness:
  "(\<forall>b'. reported_total (seven_in_two_pages b') \<le> 7) \<and>
   list_begins (fst (parse_article_list scheme_sep linked_entry (u ''id'') 0 (seven_in_two_pages 0))) = [5] \<and>
   list_begins (fst (parse_article_list scheme_sep linked_entry (u ''id'') 5 (seven_in_two_pages 5))) = [] \<and>
   crawl_pages (Suc (nat (7 - 0))) scheme_sep linked_entry seven_in_two_pages (u ''id'') 0 = Some [0, 5]"
proof -
  have a: "usable (seven_in_two_pages 0)" "returned_count (seven_in_two_pages 0) = 5"
    "reported_total (seven_in_two_pages 0) = 7"
    "usable (seven_in_two_pages 5)" "returned_count (seven_in_two_pages 5) = 2"
    "reported_total (seven_in_two_pages 5) = 7"
    by (simp_all add: seven_in_two_pages_def usable_def returned_count_def reported_total_def)
  have e: "entries_ok scheme_sep linked_entry (u ''id'') (seven_in_two_pages b)" for b
    by (simp add: entries_ok_def seven_in_two_pages_def linked_entry_ok)
  note t0 = pagination_cursor [of scheme_sep linked_entry "u ''id''" 0 "seven_in_two_pages 0" seven_in_two_pages 7]
  note t5 = pagination_cursor [of scheme_sep linked_entry "u ''id''" 5 "seven_in_two_pages 5" seven_in_two_pages 7]
  have p0: "list_begins (fst (parse_article_list scheme_sep linked_entry (u ''id'') 0 (seven_in_two_pages 0))) = [5]"
    using t0 a e by simp
  have p5: "list_begins (fst (parse_article_list scheme_sep linked_entry (u ''id'') 5 (seven_in_two_pages 5))) = []"
    using t5 a e by simp
  have "crawl_pages (Suc (Suc (Suc (Suc (Suc (Suc (Suc (Suc 0)))))))) scheme_sep linked_entry
          seven_in_two_pages (u ''id'') 0 = Some [0, 5]"
    by (simp add: p0 p5)
  moreover have "Suc (nat (7 - 0)) = Suc (Suc (Suc (Suc (Suc (Suc (Suc (Suc 0)))))))"
    by simp
  ultimately show ?thesis using seven_total p0 p5 by (simp only: simp_thms)
qed

section \<open>Properties of the classifier\<close>

lemma contains_iff_sublist: "contains k t \<longleftrightarrow> sublist k t"
  by (induction t) (auto simp: sublist_Cons_right)

lemma keyword_loop_iff: "keyword_loop t ks \<longleftrightarrow> (\<exists>k \<in> set ks. sublist k t)"
  by (induction ks) (auto simp: contains_iff_sublist)

lemma category_loop_find:
  "category_loop t tab = map_option fst (find (\<lambda>(c, ks). \<exists>k \<in> set ks. sublist k t) tab)"
  by (induction tab) (auto simp: keyword_loop_iff)

text \<open>
  C5, as stated, fails in its default: when no keyword matches, the classifier returns
  the two-character category written in the source, not the string \<open>other\<close>.
\<close>

theorem classifier_default_is_not_other:
  "categorize_article ascii_lower (u ''Hello'') (u ''world'') = [20854, 20182] \<and>
   [20854, 20182] \<noteq> u ''other''"
  by (simp add: categorize_article_def ascii_lower_def u_def categories_def default_category_def)

text \<open>
  C5 (amended): for every title and description the classifier returns the first
  category, in table order, one of whose keywords occurs as a substring of the lowered
  \<open>title + " " + description\<close>, and the source's default category (code points 20854,
  20182) when no keyword matches.
\<close>

theorem classifier_first_match:
  "categorize_article lower title description =
     classify_spec lower default_category title description"
  by (simp add: categorize_article_def classify_spec_def category_loop_find Let_def
      split: option.splits prod.splits)

theorem classifier_first_match_witness:
  "categorize_article ascii_lower [24037, 20855, 24320, 21457, 25216, 24039] [] = [25216, 26415] \<and>
   classify_spec ascii_lower default_category [24037, 20855, 24320, 21457, 25216, 24039] []
     = [25216, 26415]"
proof -
  have "categorize_article ascii_lower [24037, 20855, 24320, 21457, 25216, 24039] [] = [25216, 26415]"
    by (simp add: categorize_article_def ascii_lower_def u_def categories_def)
  with classifier_first_match [of ascii_lower "[24037, 20855, 24320, 21457, 25216, 24039]" "[]"]
  show ?thesis by simp
qed

section \<open>Properties of the article page and of progress\<close>

lemma content_try_keeps_fields:
  "k \<notin> {''content'', ''images'', ''videos'', ''crawl_time''} \<Longrightarrow>
   snd (content_try p now it) k = it k"
  by (auto simp: content_try_def Let_def split: sum.splits option.splits)

text \<open>
  C8, as stated, fails for a failed fetch: the request for the article page has no
  errback, so when the download fails no callback runs and the record built from the
  listing is not yielded.
\<close>

theorem failed_fetch_yields_nothing:
  "deliver_content (u ''2024-01-01'') (ArticleContentRequest (PStr (u ''x'')) first_copy)
     DownloadFailed = []"
  by (simp add: deliver_content_def)

text \<open>
  C8 (amended): for every article page that is downloaded, whatever fails while the
  content is extracted, \<open>parse_article_content\<close> yields exactly one record, and that
  record carries every field of the record built from the listing other than
  \<open>content\<close>, \<open>images\<close>, \<open>videos\<close> and \<open>crawl_time\<close>.
\<close>

theorem extraction_failure_keeps_item:
  "\<exists>it'. deliver_content now (ArticleContentRequest url it) (Downloaded p) = [it'] \<and>
         (\<forall>k. k \<notin> {''content'', ''images'', ''videos'', ''crawl_time''} \<longrightarrow> it' k = it k)"
proof -
  have "fst (parse_article_content p now it) = [snd (content_try p now it)]"
    by (simp add: parse_article_content_def split: prod.splits option.splits)
  then show ?thesis
    using content_try_keeps_fields [of _ p now it] by (simp add: deliver_content_def)
qed

theorem extraction_failure_keeps_item_witness:
  "content_try images_fail_page (u ''2024-01-01'') first_copy
     = (Some NotSupported, first_copy(''content'' \<mapsto> PStr (u ''text'')))
   \<and> (\<exists>it'. deliver_content (u ''2024-01-01'') (ArticleContentRequest (PStr (u ''x'')) first_copy)
               (Downloaded images_fail_page) = [it'] \<and>
            it' ''title'' = Some (PStr (u ''first'')) \<and>
            it' ''article_id'' = Some (PStr (u ''a1'')))"
proof -
  have c: "clean_html_content (u ''<p>text</p>'') = u ''text''"
    by (simp add: clean_html_content_def remove_scripts_def remove_styles_def
        remove_comments_def break_lines_def strip_tags_def collapse_blank_def re_sub_def
        m_seq_def m_tag_def m_blank_def ci_eq_def strip_def isspace_def u_def Let_def)
  have a: "content_try images_fail_page (u ''2024-01-01'') first_copy
     = (Some NotSupported, first_copy(''content'' \<mapsto> PStr (u ''text'')))"
    by (simp add: content_try_def images_fail_page_def content_selectors_def c Let_def)
       (simp add: u_def)
  have f: "first_copy ''title'' = Some (PStr (u ''first''))"
    "first_copy ''article_id'' = Some (PStr (u ''a1''))"
    by (simp_all add: first_copy_def)
  from extraction_failure_keeps_item [of "u ''2024-01-01''" "PStr (u ''x'')" first_copy images_fail_page]
  obtain it' where
    "deliver_content (u ''2024-01-01'') (ArticleContentRequest (PStr (u ''x'')) first_copy)
       (Downloaded images_fail_page) = [it']"
    and k: "\<forall>k. k \<notin> {''content'', ''images'', ''videos'', ''crawl_time''} \<longrightarrow> it' k = first_copy k"
    by blast
  moreover from k f have "it' ''title'' = Some (PStr (u ''first''))"
    "it' ''article_id'' = Some (PStr (u ''a1''))" by simp_all
  ultimately show ?thesis using a by blast
qed

text \<open>
  C9 at a run over three articles: \<open>total_articles\<close> is never assigned after the
  manager is created, so three calls of \<open>process_item\<close> report the progress values 100,
  200 and 300 with total 0, not 33.3, 66.7 and 100.0 with total 3; and the crawl itself
  emits no "crawling" event at all, only the closing event, with 0 crawled.
\<close>

theorem progress_events_three_articles:
  "(let m0 = snd (start_crawling CrawlerManager_init (u ''acct''));
        (m1, e1) = SocketIOWechatSpider_process_item m0 first_copy;
        (m2, e2) = SocketIOWechatSpider_process_item m1 no_content_item;
        (m3, e3) = SocketIOWechatSpider_process_item m2 third_item
    in map (\<lambda>e. (ev_progress e, ev_crawled e, ev_total e, ev_status e)) [e1, e2, e3])
   = [(100, 1, 0, Crawling), (200, 2, 0, Crawling), (300, 3, 0, Crawling)]
   \<and> snd (snd (crawl_articles list_index (\<lambda>s. None) []
                  (snd (start_crawling CrawlerManager_init (u ''acct''))) empty_world
                  [first_copy, no_content_item, third_item]))
     = [\<lparr>ev_progress = 100, ev_crawled = 0, ev_total = 0, ev_current_article = None,
         ev_status = Completed\<rparr>]"
  by (simp add: start_crawling_def CrawlerManager_init_def SocketIOWechatSpider_process_item_def
      crawl_articles_def Let_def)

section \<open>Properties of the normalizer\<close>

subsection \<open>Scanning and matching\<close>

lemma sub_scan_drop: "sub_scan m r k s = sub_scan m r 0 (drop k s)"
proof (induction s arbitrary: k)
  case Nil
  then show ?case by simp
next
  case (Cons c cs)
  then show ?case by (cases k) simp_all
qed

lemma sub_scan_match:
  "m (c # cs) = Some n \<Longrightarrow> 0 < n \<Longrightarrow>
   sub_scan m r 0 (c # cs) = r @ sub_scan m r 0 (drop n (c # cs))"
  using sub_scan_drop [of m r "n - 1" cs] by (cases n) simp_all

lemma sub_scan_copy: "m (c # cs) = None \<Longrightarrow> sub_scan m r 0 (c # cs) = c # sub_scan m r 0 cs"
  by simp


lemma lit_at_chars: "lit_at eq l t \<Longrightarrow> q \<in> set l \<Longrightarrow> \<exists>c \<in> set t. eq q c"
  by (induction eq l t rule: lit_at.induct) auto

lemma find_end_chars: "find_end eq l t = Some n \<Longrightarrow> q \<in> set l \<Longrightarrow> \<exists>c \<in> set t. eq q c"
proof (induction t arbitrary: n)
  case Nil
  then show ?case by (simp split: if_splits)
next
  case (Cons c cs)
  show ?case
  proof (cases "lit_at eq l (c # cs)")
    case True
    then show ?thesis using Cons.prems(2) by (rule lit_at_chars)
  next
    case False
    with Cons.prems(1) obtain n' where "find_end eq l cs = Some n'" by auto
    from Cons.IH [OF this Cons.prems(2)] show ?thesis by auto
  qed
qed


lemma chain_chars:
  "chain eq ls t = Some n \<Longrightarrow> l \<in> set ls \<Longrightarrow> q \<in> set l \<Longrightarrow> \<exists>c \<in> set t. eq q c"
proof (induction ls arbitrary: t n)
  case Nil
  then show ?case by simp
next
  case (Cons l1 ls)
  from Cons.prems(1) obtain n1 n2 where f: "find_end eq l1 t = Some n1"
    and c: "chain eq ls (drop n1 t) = Some n2"
    by (auto split: option.splits)
  show ?case
  proof (cases "l = l1")
    case True
    with f Cons.prems(3) show ?thesis by (auto dest: find_end_chars)
  next
    case False
    with Cons.prems(2) have "l \<in> set ls" by simp
    from Cons.IH [OF c this Cons.prems(3)] obtain x where "x \<in> set (drop n1 t)" "eq q x" by auto
    then show ?thesis by (auto dest: in_set_dropD)
  qed
qed

lemma find_gt_iff: "find_end (=) [62] t \<noteq> None \<longleftrightarrow> 62 \<in> set t"
  by (induction t) auto

lemma m_tag_iff:
  "m_tag s \<noteq> None \<longleftrightarrow> (\<exists>c1 rest. s = 60 # c1 # rest \<and> c1 \<noteq> 62 \<and> 62 \<in> set rest)"
proof (cases s)
  case Nil
  then show ?thesis by (simp add: m_tag_def)
next
  case (Cons c0 s')
  then show ?thesis using find_gt_iff
    by (cases s') (auto simp: m_tag_def)
qed

lemma m_seq_imp_tag:
  assumes "m_seq eq (60 # p # l') ls s = Some n"
    and "\<And>c. eq 60 c \<Longrightarrow> c = 60" and "\<not> eq p 62" and "\<And>c. eq 62 c \<Longrightarrow> c = 62"
    and "62 \<in> set l' \<or> (\<exists>l \<in> set ls. 62 \<in> set l)"
  shows "m_tag s \<noteq> None"
proof -
  from assms(1) have la: "lit_at eq (60 # p # l') s"
    and ch: "chain eq ls (drop (length (60 # p # l')) s) \<noteq> None"
    by (auto simp: m_seq_def split: if_splits)
  from la obtain c0 c1 rest where s: "s = c0 # c1 # rest" and "eq 60 c0" "eq p c1" "lit_at eq l' rest"
    by (cases s; cases "tl s") auto
  with assms(2,3) have c0: "c0 = 60" and c1: "c1 \<noteq> 62" by auto
  have "62 \<in> set rest"
  proof (cases "62 \<in> set l'")
    case True
    with \<open>lit_at eq l' rest\<close> obtain c where "c \<in> set rest" "eq 62 c" by (auto dest: lit_at_chars)
    with assms(4) show ?thesis by auto
  next
    case False
    with assms(5) obtain l where "l \<in> set ls" "62 \<in> set l" by auto
    moreover from ch obtain k where "chain eq ls (drop (length l') rest) = Some k"
      by (auto simp: s)
    ultimately obtain c where "c \<in> set (drop (length l') rest)" "eq 62 c"
      by (auto dest: chain_chars)
    with assms(4) show ?thesis by (auto dest: in_set_dropD)
  qed
  with c0 c1 s show ?thesis using m_tag_iff [of s] by blast
qed

lemma no_tags_scan_id:
  "no_tags s \<Longrightarrow> (\<And>t. m t \<noteq> None \<Longrightarrow> m_tag t \<noteq> None) \<Longrightarrow> sub_scan m r 0 s = s"
proof (induction s)
  case Nil
  then show ?case by simp
next
  case (Cons c cs)
  from Cons.prems(1) have "m_tag (c # cs) = None" by simp
  with Cons.prems(2) [of "c # cs"] have "m (c # cs) = None" by blast
  moreover from Cons.prems(1) have "no_tags cs" by simp
  ultimately show ?case using Cons.IH Cons.prems(2) by simp
qed

lemma ci_eq_60: "ci_eq 60 c \<Longrightarrow> c = 60" and ci_eq_62: "ci_eq 62 c \<Longrightarrow> c = 62"
  by (auto simp: ci_eq_def)

lemma no_tags_passes:
  assumes "no_tags s"
  shows "remove_scripts s = s" "remove_styles s = s" "remove_comments s = s"
    "break_lines s = s" "strip_tags s = s"
proof -
  have sc: "m_seq ci_eq (u ''<script'') [u ''>'', u ''</script>''] t \<noteq> None \<Longrightarrow> m_tag t \<noteq> None" for t
    using m_seq_imp_tag [of ci_eq 115 "u ''cript''" "[u ''>'', u ''</script>'']" t]
    by (auto simp: u_def ci_eq_60 ci_eq_62) (simp add: ci_eq_def)
  have st: "m_seq ci_eq (u ''<style'') [u ''>'', u ''</style>''] t \<noteq> None \<Longrightarrow> m_tag t \<noteq> None" for t
    using m_seq_imp_tag [of ci_eq 115 "u ''tyle''" "[u ''>'', u ''</style>'']" t]
    by (auto simp: u_def ci_eq_60 ci_eq_62) (simp add: ci_eq_def)
  have co: "m_seq (=) (u ''<!--'') [u ''-->''] t \<noteq> None \<Longrightarrow> m_tag t \<noteq> None" for t
    using m_seq_imp_tag [of "(=)" 33 "u ''--''" "[u ''-->'']" t]
    by (auto simp: u_def)
  have br: "m_seq ci_eq (u ''<br'') [u ''>''] t \<noteq> None \<Longrightarrow> m_tag t \<noteq> None" for t
    using m_seq_imp_tag [of ci_eq 98 "u ''r''" "[u ''>'']" t]
    by (auto simp: u_def ci_eq_60 ci_eq_62) (simp add: ci_eq_def)
  have p: "m_seq ci_eq (u ''<p'') [u ''>''] t \<noteq> None \<Longrightarrow> m_tag t \<noteq> None" for t
    using m_seq_imp_tag [of ci_eq 112 "[]" "[u ''>'']" t]
    by (auto simp: u_def ci_eq_60 ci_eq_62) (simp add: ci_eq_def)
  have cp: "m_seq ci_eq (u ''</p>'') [] t \<noteq> None \<Longrightarrow> m_tag t \<noteq> None" for t
    using m_seq_imp_tag [of ci_eq 47 "u ''p>''" "[]" t]
    by (auto simp: u_def ci_eq_60 ci_eq_62) (simp add: ci_eq_def)
  have dv: "m_seq ci_eq (u ''<div'') [u ''>''] t \<noteq> None \<Longrightarrow> m_tag t \<noteq> None" for t
    using m_seq_imp_tag [of ci_eq 100 "u ''iv''" "[u ''>'']" t]
    by (auto simp: u_def ci_eq_60 ci_eq_62) (simp add: ci_eq_def)
  have cd: "m_seq ci_eq (u ''</div>'') [] t \<noteq> None \<Longrightarrow> m_tag t \<noteq> None" for t
    using m_seq_imp_tag [of ci_eq 47 "u ''div>''" "[]" t]
    by (auto simp: u_def ci_eq_60 ci_eq_62) (simp add: ci_eq_def)
  show "remove_scripts s = s"
    unfolding remove_scripts_def re_sub_def using assms sc by (rule no_tags_scan_id)
  show "remove_styles s = s"
    unfolding remove_styles_def re_sub_def using assms st by (rule no_tags_scan_id)
  show "remove_comments s = s"
    unfolding remove_comments_def re_sub_def using assms co by (rule no_tags_scan_id)
  show "strip_tags s = s"
    unfolding strip_tags_def re_sub_def using assms by (rule no_tags_scan_id)
  have "re_sub (m_seq ci_eq (u ''<br'') [u ''>'']) [10] s = s"
    "re_sub (m_seq ci_eq (u ''<p'') [u ''>'']) [10] s = s"
    "re_sub (m_seq ci_eq (u ''</p>'') []) [10] s = s"
    "re_sub (m_seq ci_eq (u ''<div'') [u ''>'']) [10] s = s"
    "re_sub (m_seq ci_eq (u ''</div>'') []) [10] s = s"
    unfolding re_sub_def using assms br p cp dv cd by (auto intro: no_tags_scan_id)
  then show "break_lines s = s" by (simp add: break_lines_def)
qed

subsection \<open>Collapsing blank lines\<close>

lemma isspace_10 [simp]: "isspace 10" and not_isspace_60 [simp]: "\<not> isspace 60"
  and not_isspace_62 [simp]: "\<not> isspace 62"
  by (simp_all add: isspace_def)

lemma m_blank_char: "c \<noteq> 10 \<Longrightarrow> m_blank (c # s) = None"
  by (simp add: m_blank_def)

lemma takeWhile_space_run:
  "\<forall>c \<in> set w. isspace c \<Longrightarrow> rest = [] \<or> \<not> isspace (hd rest) \<Longrightarrow>
   takeWhile isspace (w @ rest) = w"
  by (cases rest) (simp_all add: takeWhile_tail)

lemma m_blank_single:
  assumes "\<forall>c \<in> set t. isspace c" "10 \<notin> set t" "rest = [] \<or> \<not> isspace (hd rest)"
  shows "m_blank (10 # t @ rest) = None"
proof -
  have "takeWhile isspace (t @ rest) = t" using assms(1,3) by (rule takeWhile_space_run)
  moreover have "takeWhile (\<lambda>c. c \<noteq> 10) (rev t) = rev t"
    using assms(2) by (auto simp: takeWhile_eq_all_conv)
  then have "length (takeWhile (\<lambda>c. c \<noteq> 10) (rev t)) = length t"
    by (simp only: length_rev)
  ultimately show ?thesis by (simp add: m_blank_def)
qed

lemma m_blank_double:
  assumes "\<forall>c \<in> set w. isspace c" "\<forall>c \<in> set t. isspace c" "10 \<notin> set t"
    "rest = [] \<or> \<not> isspace (hd rest)"
  shows "m_blank (10 # w @ 10 # t @ rest) = Some (Suc (Suc (length w)))"
proof -
  have "takeWhile isspace ((w @ 10 # t) @ rest) = w @ 10 # t"
    using assms(1,2,4) by (intro takeWhile_space_run) auto
  moreover have "takeWhile (\<lambda>c. c \<noteq> 10) (rev t @ 10 # rev w) = rev t"
    using assms(3) by (subst takeWhile_tail) auto
  then have "length (takeWhile (\<lambda>c. c \<noteq> 10) (rev t @ 10 # rev w)) = length t"
    by (simp only: length_rev)
  ultimately show ?thesis by (simp add: m_blank_def)
qed

lemma collapse_Nil [simp]: "collapse_blank [] = []"
  by (simp add: collapse_blank_def re_sub_def)

lemma collapse_char: "c \<noteq> 10 \<Longrightarrow> collapse_blank (c # s) = c # collapse_blank s"
  by (simp add: collapse_blank_def re_sub_def m_blank_char)

lemma collapse_no_newline: "10 \<notin> set t \<Longrightarrow> collapse_blank (t @ s) = t @ collapse_blank s"
  by (induction t) (simp_all add: collapse_char)

lemma collapse_single:
  assumes "\<forall>c \<in> set t. isspace c" "10 \<notin> set t" "rest = [] \<or> \<not> isspace (hd rest)"
  shows "collapse_blank (10 # t @ rest) = 10 # t @ collapse_blank rest"
proof -
  have "collapse_blank (10 # t @ rest) = 10 # collapse_blank (t @ rest)"
    using m_blank_single [OF assms] by (simp add: collapse_blank_def re_sub_def)
  then show ?thesis using assms(2) by (simp add: collapse_no_newline)
qed

lemma collapse_double:
  assumes "\<forall>c \<in> set w. isspace c" "\<forall>c \<in> set t. isspace c" "10 \<notin> set t"
    "rest = [] \<or> \<not> isspace (hd rest)"
  shows "collapse_blank (10 # w @ 10 # t @ rest) = 10 # 10 # t @ collapse_blank rest"
proof -
  have "sub_scan m_blank [10, 10] 0 (10 # w @ 10 # t @ rest)
          = [10, 10] @ sub_scan m_blank [10, 10] 0 (drop (Suc (Suc (length w))) (10 # w @ 10 # t @ rest))"
    using m_blank_double [OF assms] by (intro sub_scan_match) simp_all
  then have "collapse_blank (10 # w @ 10 # t @ rest) = 10 # 10 # collapse_blank (t @ rest)"
    by (simp add: collapse_blank_def re_sub_def)
  then show ?thesis using assms(3) by (simp add: collapse_no_newline)
qed

text \<open>Every text falls into one of the four shapes the scan distinguishes at its head.\<close>

lemma blank_cases:
  obtains (Nil) "s = []"
  | (Char) c s' where "s = c # s'" "c \<noteq> 10"
  | (Single) t rest where "s = 10 # t @ rest" "\<forall>c \<in> set t. isspace c" "10 \<notin> set t"
      "rest = [] \<or> \<not> isspace (hd rest)"
  | (Double) w t rest where "s = 10 # w @ 10 # t @ rest" "\<forall>c \<in> set w. isspace c"
      "\<forall>c \<in> set t. isspace c" "10 \<notin> set t" "rest = [] \<or> \<not> isspace (hd rest)"
proof (cases s)
  case Nil
  then show ?thesis by (rule that(1))
next
  case (Cons c cs)
  show ?thesis
  proof (cases "c = 10")
    case False
    with Cons show ?thesis by (intro that(2)) auto
  next
    case True
    let ?ws = "takeWhile isspace cs" and ?rest = "dropWhile isspace cs"
    have cs: "cs = ?ws @ ?rest" by simp
    have ws: "\<forall>c \<in> set ?ws. isspace c" by (auto dest: set_takeWhileD)
    have rest: "?rest = [] \<or> \<not> isspace (hd ?rest)"
      using hd_dropWhile [of isspace cs] by blast
    show ?thesis
    proof (cases "10 \<in> set ?ws")
      case False
      with Cons True cs ws rest show ?thesis by (intro that(3) [of ?ws ?rest]) auto
    next
      case in_ws: True
      then obtain w t where wt: "?ws = w @ 10 # t" "10 \<notin> set t"
        by (auto dest: split_list_last)
      with ws have "\<forall>c \<in> set w. isspace c" "\<forall>c \<in> set t. isspace c" by auto
      moreover have "cs = (w @ 10 # t) @ ?rest" using cs wt(1) by simp
      then have "s = 10 # w @ 10 # t @ ?rest" using Cons True by simp
      ultimately show ?thesis using wt(2) rest by (intro that(4) [of w t ?rest]) auto
    qed
  qed
qed

lemma hd_collapse:
  "rest = [] \<or> \<not> isspace (hd rest) \<Longrightarrow> collapse_blank rest = [] \<or> \<not> isspace (hd (collapse_blank rest))"
proof (cases rest)
  case Nil
  then show ?thesis by simp
next
  case (Cons d b)
  assume "rest = [] \<or> \<not> isspace (hd rest)"
  with Cons have "\<not> isspace d" by simp
  then have "d \<noteq> 10" by auto
  with Cons \<open>\<not> isspace d\<close> show ?thesis by (simp add: collapse_char)
qed

lemma collapse_idem: "collapse_blank (collapse_blank s) = collapse_blank s"
proof (induction s rule: length_induct)
  case (1 s)
  show ?case
  proof (cases s rule: blank_cases)
    case Nil
    then show ?thesis by simp
  next
    case (Char c s')
    from 1 Char(1) have "collapse_blank (collapse_blank s') = collapse_blank s'" by simp
    with Char show ?thesis by (simp add: collapse_char)
  next
    case (Single t rest)
    have "length rest < length s" by (simp add: Single(1))
    with 1 have ih: "collapse_blank (collapse_blank rest) = collapse_blank rest" by blast
    have a: "collapse_blank s = 10 # t @ collapse_blank rest"
      unfolding Single(1) using Single(2-4) by (rule collapse_single)
    have "collapse_blank (10 # t @ collapse_blank rest) = 10 # t @ collapse_blank (collapse_blank rest)"
      using Single(2,3) hd_collapse [OF Single(4)] by (rule collapse_single)
    with a ih show ?thesis by simp
  next
    case (Double w t rest)
    have "length rest < length s" by (simp add: Double(1))
    with 1 have ih: "collapse_blank (collapse_blank rest) = collapse_blank rest" by blast
    have a: "collapse_blank s = 10 # 10 # t @ collapse_blank rest"
      unfolding Double(1) using Double(2-5) by (rule collapse_double)
    have "collapse_blank (10 # [] @ 10 # t @ collapse_blank rest)
            = 10 # 10 # t @ collapse_blank (collapse_blank rest)"
      using _ Double(3,4) hd_collapse [OF Double(5)] by (rule collapse_double) simp
    with a ih show ?thesis by simp
  qed
qed

lemma filter_collapse:
  "filter (\<lambda>c. \<not> isspace c) (collapse_blank s) = filter (\<lambda>c. \<not> isspace c) s"
proof (induction s rule: length_induct)
  case (1 s)
  show ?case
  proof (cases s rule: blank_cases)
    case Nil
    then show ?thesis by simp
  next
    case (Char c s')
    with 1 show ?thesis by (simp add: collapse_char)
  next
    case (Single t rest)
    have "length rest < length s" by (simp add: Single(1))
    with 1 have "filter (\<lambda>c. \<not> isspace c) (collapse_blank rest) = filter (\<lambda>c. \<not> isspace c) rest"
      by blast
    with Single show ?thesis by (simp add: collapse_single)
  next
    case (Double w t rest)
    have "length rest < length s" by (simp add: Double(1))
    with 1 have "filter (\<lambda>c. \<not> isspace c) (collapse_blank rest) = filter (\<lambda>c. \<not> isspace c) rest"
      by blast
    with Double show ?thesis by (simp add: collapse_double)
  qed
qed

lemma in_collapse: "x \<in> set (collapse_blank s) \<Longrightarrow> \<not> isspace x \<Longrightarrow> x \<in> set s"
proof -
  assume "x \<in> set (collapse_blank s)" "\<not> isspace x"
  then have "x \<in> set (filter (\<lambda>c. \<not> isspace c) (collapse_blank s))" by simp
  then have "x \<in> set (filter (\<lambda>c. \<not> isspace c) s)" by (simp only: filter_collapse)
  then show ?thesis by simp
qed

lemma collapse_in: "x \<in> set s \<Longrightarrow> \<not> isspace x \<Longrightarrow> x \<in> set (collapse_blank s)"
proof -
  assume "x \<in> set s" "\<not> isspace x"
  then have "x \<in> set (filter (\<lambda>c. \<not> isspace c) s)" by simp
  then have "x \<in> set (filter (\<lambda>c. \<not> isspace c) (collapse_blank s))" by (simp only: filter_collapse)
  then show ?thesis by simp
qed

lemma allws_collapse: "(\<forall>c \<in> set (collapse_blank s). isspace c) \<longleftrightarrow> (\<forall>c \<in> set s. isspace c)"
  using in_collapse [of _ s] collapse_in [of _ s] by blast

subsection \<open>Trimming\<close>

lemma lstrip_boundary: "r = [] \<or> \<not> isspace (hd r) \<Longrightarrow> dropWhile isspace r = r"
  by (cases r) auto

lemma rstrip_allws: "\<forall>c \<in> set s. isspace c \<Longrightarrow> rev (dropWhile isspace (rev s)) = []"
  by simp

lemma rstrip_append:
  "\<not> (\<forall>c \<in> set y. isspace c) \<Longrightarrow>
   rev (dropWhile isspace (rev (w @ y))) = w @ rev (dropWhile isspace (rev y))"
proof -
  assume "\<not> (\<forall>c \<in> set y. isspace c)"
  then obtain x where "x \<in> set (rev y)" "\<not> isspace x" by auto
  then have "dropWhile isspace (rev y @ rev w) = dropWhile isspace (rev y) @ rev w"
    by (rule dropWhile_append1)
  then show ?thesis by simp
qed

lemma rstrip_Cons:
  "rev (dropWhile isspace (rev (c # y))) =
     (if \<forall>x \<in> set (c # y). isspace x then [] else c # rev (dropWhile isspace (rev y)))"
proof (cases "\<forall>x \<in> set y. isspace x")
  case True
  then have "dropWhile isspace (rev y) = []" by simp
  then show ?thesis using True by (simp add: dropWhile_append)
next
  case False
  then show ?thesis using rstrip_append [of y "[c]"] by auto
qed

lemma lstrip_collapse:
  "dropWhile isspace (collapse_blank s) = collapse_blank (dropWhile isspace s)"
proof (induction s rule: length_induct)
  case (1 s)
  show ?case
  proof (cases s rule: blank_cases)
    case Nil
    then show ?thesis by simp
  next
    case (Char c s')
    from 1 Char(1) have "dropWhile isspace (collapse_blank s') = collapse_blank (dropWhile isspace s')"
      by simp
    with Char show ?thesis by (simp add: collapse_char)
  next
    case (Single t rest)
    have "dropWhile isspace ((10 # t) @ collapse_blank rest) = dropWhile isspace (collapse_blank rest)"
      using Single(2) by (intro dropWhile_append2) auto
    moreover have "dropWhile isspace ((10 # t) @ rest) = dropWhile isspace rest"
      using Single(2) by (intro dropWhile_append2) auto
    ultimately show ?thesis
      using Single collapse_single [of t rest] lstrip_boundary [of rest]
        lstrip_boundary [OF hd_collapse [of rest]] by simp
  next
    case (Double w t rest)
    have "dropWhile isspace ((10 # 10 # t) @ collapse_blank rest) = dropWhile isspace (collapse_blank rest)"
      using Double(3) by (intro dropWhile_append2) auto
    moreover have "dropWhile isspace ((10 # w @ 10 # t) @ rest) = dropWhile isspace rest"
      using Double(2,3) by (intro dropWhile_append2) auto
    ultimately show ?thesis
      using Double collapse_double [of w t rest] lstrip_boundary [of rest]
        lstrip_boundary [OF hd_collapse [of rest]] by simp
  qed
qed

lemma rstrip_collapse:
  "rev (dropWhile isspace (rev (collapse_blank s))) = collapse_blank (rev (dropWhile isspace (rev s)))"
proof (induction s rule: length_induct)
  case (1 s)
  have ih: "length r < length s \<Longrightarrow>
        rev (dropWhile isspace (rev (collapse_blank r))) = collapse_blank (rev (dropWhile isspace (rev r)))" for r
    using 1 by blast
  have tail: "rev (dropWhile isspace (rev (collapse_blank (p @ rest)))) =
              collapse_blank (rev (dropWhile isspace (rev (p @ rest))))"
    if s: "s = p @ rest" and p: "p \<noteq> []" "\<forall>c \<in> set p. isspace c" "\<forall>c \<in> set q. isspace c"
      and rest: "rest = [] \<or> \<not> isspace (hd rest)"
      and c1: "\<And>r. r = [] \<or> \<not> isspace (hd r) \<Longrightarrow> collapse_blank (p @ r) = q @ collapse_blank r"
    for p q rest
  proof (cases rest)
    case Nil
    have "\<forall>c \<in> set (collapse_blank (p @ [])). isspace c"
      using c1 [of "[]"] p(3) by simp
    then have "rev (dropWhile isspace (rev (collapse_blank (p @ [])))) = []"
      by (rule rstrip_allws)
    moreover have "rev (dropWhile isspace (rev (p @ []))) = []"
      using p(2) by (intro rstrip_allws) simp
    ultimately show ?thesis by (simp only: Nil collapse_Nil)
  next
    case (Cons d b)
    with rest have d: "\<not> isspace d" by simp
    then have nws: "\<not> (\<forall>c \<in> set rest. isspace c)" using Cons by auto
    then have nwc: "\<not> (\<forall>c \<in> set (collapse_blank rest). isspace c)"
      using allws_collapse [of rest] by blast
    have "length rest < length s" using s p(1) by simp
    note ih' = ih [OF this]
    have rr: "rev (dropWhile isspace (rev rest)) = d # rev (dropWhile isspace (rev b))"
      using d by (simp only: Cons rstrip_Cons) simp
    have "rev (dropWhile isspace (rev (collapse_blank (p @ rest))))
            = q @ rev (dropWhile isspace (rev (collapse_blank rest)))"
      using c1 [OF rest] rstrip_append [OF nwc, of q] by simp
    also have "\<dots> = q @ collapse_blank (rev (dropWhile isspace (rev rest)))"
      by (simp only: ih')
    also have "\<dots> = collapse_blank (p @ rev (dropWhile isspace (rev rest)))"
      using c1 [of "rev (dropWhile isspace (rev rest))"] d by (simp add: rr)
    also have "\<dots> = collapse_blank (rev (dropWhile isspace (rev (p @ rest))))"
      using rstrip_append [OF nws, of p] by simp
    finally show ?thesis .
  qed
  show ?case
  proof (cases s rule: blank_cases)
    case Nil
    then show ?thesis by simp
  next
    case (Char c s')
    have ihs: "rev (dropWhile isspace (rev (collapse_blank s'))) = collapse_blank (rev (dropWhile isspace (rev s')))"
      using ih [of s'] Char(1) by simp
    have e: "collapse_blank (c # s') = c # collapse_blank s'"
      using Char(2) by (rule collapse_char)
    show ?thesis
    proof (cases "\<forall>x \<in> set (c # s'). isspace x")
      case True
      then have "\<forall>x \<in> set (c # collapse_blank s'). isspace x"
        using allws_collapse [of s'] by simp
      then have "rev (dropWhile isspace (rev (c # collapse_blank s'))) = []" by (rule rstrip_allws)
      moreover have "rev (dropWhile isspace (rev (c # s'))) = []" using True by (rule rstrip_allws)
      ultimately show ?thesis by (simp only: Char(1) e collapse_Nil)
    next
      case False
      then have "\<not> (\<forall>x \<in> set (c # collapse_blank s'). isspace x)"
        using allws_collapse [of s'] by simp
      then have "rev (dropWhile isspace (rev (c # collapse_blank s')))
                  = c # rev (dropWhile isspace (rev (collapse_blank s')))"
        by (simp only: rstrip_Cons if_False)
      moreover have "rev (dropWhile isspace (rev (c # s'))) = c # rev (dropWhile isspace (rev s'))"
        using False by (simp only: rstrip_Cons if_False)
      ultimately show ?thesis using Char(2) by (simp add: Char(1) e ihs collapse_char)
    qed
  next
    case (Single t rest)
    have "rev (dropWhile isspace (rev (collapse_blank ((10 # t) @ rest)))) =
              collapse_blank (rev (dropWhile isspace (rev ((10 # t) @ rest))))"
    proof (rule tail [where q = "10 # t"])
      show "s = (10 # t) @ rest" using Single(1) by simp
      show "\<forall>c \<in> set (10 # t). isspace c" using Single(2) by simp
      then show "\<forall>c \<in> set (10 # t). isspace c" .
      show "rest = [] \<or> \<not> isspace (hd rest)" by (rule Single(4))
      show "collapse_blank ((10 # t) @ r) = (10 # t) @ collapse_blank r"
        if "r = [] \<or> \<not> isspace (hd r)" for r
        using collapse_single [OF Single(2,3) that] by simp
    qed simp
    then show ?thesis using Single(1) by simp
  next
    case (Double w t rest)
    have "rev (dropWhile isspace (rev (collapse_blank ((10 # w @ 10 # t) @ rest)))) =
              collapse_blank (rev (dropWhile isspace (rev ((10 # w @ 10 # t) @ rest))))"
    proof (rule tail [where q = "10 # 10 # t"])
      show "s = (10 # w @ 10 # t) @ rest" using Double(1) by simp
      show "\<forall>c \<in> set (10 # w @ 10 # t). isspace c" using Double(2,3) by auto
      show "\<forall>c \<in> set (10 # 10 # t). isspace c" using Double(3) by simp
      show "rest = [] \<or> \<not> isspace (hd rest)" by (rule Double(5))
      show "collapse_blank ((10 # w @ 10 # t) @ r) = (10 # 10 # t) @ collapse_blank r"
        if "r = [] \<or> \<not> isspace (hd r)" for r
        using collapse_double [OF Double(2,3,4) that] by simp
    qed simp
    then show ?thesis using Double(1) by simp
  qed
qed

lemma strip_collapse: "strip (collapse_blank s) = collapse_blank (strip s)"
  by (simp only: strip_def lstrip_collapse rstrip_collapse)

lemma strip_idem: "strip (strip s) = strip s"
proof -
  let ?z = "dropWhile isspace s"
  let ?y = "rev (dropWhile isspace (rev ?z))"
  have bz: "?z = [] \<or> \<not> isspace (hd ?z)" using hd_dropWhile [of isspace s] by blast
  have "?y = [] \<or> \<not> isspace (hd ?y)"
  proof (cases ?z)
    case Nil
    have "?y = []" by (simp only: Nil) simp
    then show ?thesis ..
  next
    case (Cons d b)
    with bz have "\<not> isspace d" by simp
    then show ?thesis by (simp only: Cons rstrip_Cons) simp
  qed
  then have "dropWhile isspace ?y = ?y" by (rule lstrip_boundary)
  then show ?thesis by (simp add: strip_def)
qed

subsection \<open>Text without tags\<close>

lemma m_tag_head: "c \<noteq> 60 \<Longrightarrow> m_tag (c # s) = None"
  by (cases s) (simp_all add: m_tag_def)

lemma no_tags_appendD2: "no_tags (a @ b) \<Longrightarrow> no_tags b"
  by (induction a) simp_all

lemma m_tag_append: "m_tag (a @ b) = None \<Longrightarrow> m_tag a = None"
proof (rule ccontr)
  assume n: "m_tag (a @ b) = None" and "m_tag a \<noteq> None"
  then obtain c1 rest where "a = 60 # c1 # rest" "c1 \<noteq> 62" "62 \<in> set rest"
    using m_tag_iff [of a] by blast
  then have "a @ b = 60 # c1 # (rest @ b) \<and> c1 \<noteq> 62 \<and> 62 \<in> set (rest @ b)" by simp
  then have "m_tag (a @ b) \<noteq> None" using m_tag_iff [of "a @ b"] by blast
  with n show False by simp
qed

lemma no_tags_appendD1: "no_tags (a @ b) \<Longrightarrow> no_tags a"
proof (induction a)
  case Nil
  then show ?case by simp
next
  case (Cons c a)
  then have "m_tag ((c # a) @ b) = None" "no_tags a" by simp_all
  then show ?case using m_tag_append [of "c # a" b] by simp
qed

lemma no_tags_space_prefix: "60 \<notin> set t \<Longrightarrow> no_tags y \<Longrightarrow> no_tags (t @ y)"
  by (induction t) (simp_all add: m_tag_head)

lemma no_tags_strip: "no_tags s \<Longrightarrow> no_tags (strip s)"
proof -
  assume s: "no_tags s"
  let ?z = "dropWhile isspace s"
  have "s = takeWhile isspace s @ ?z" by simp
  with s have z: "no_tags ?z" using no_tags_appendD2 by metis
  have "rev ?z = takeWhile isspace (rev ?z) @ dropWhile isspace (rev ?z)" by simp
  then have "?z = rev (dropWhile isspace (rev ?z)) @ rev (takeWhile isspace (rev ?z))"
    by (metis rev_append rev_rev_ident)
  with z have "no_tags (rev (dropWhile isspace (rev ?z)))" using no_tags_appendD1 by metis
  then show ?thesis by (simp add: strip_def)
qed

lemma not_space_60: "\<forall>c \<in> set t. isspace c \<Longrightarrow> 60 \<notin> set t"
  by auto

lemma no_tags_collapse: "no_tags s \<Longrightarrow> no_tags (collapse_blank s)"
proof (induction s rule: length_induct)
  case (1 s)
  have ih: "length r < length s \<Longrightarrow> no_tags r \<Longrightarrow> no_tags (collapse_blank r)" for r
    using 1 by blast
  show ?case
  proof (cases s rule: blank_cases)
    case Nil
    then show ?thesis by simp
  next
    case (Char c s')
    from "1.prems" Char(1) have mt: "m_tag (c # s') = None" and nt: "no_tags s'" by simp_all
    have t: "no_tags (collapse_blank s')" using ih [of s'] nt Char(1) by simp
    have "m_tag (c # collapse_blank s') = None"
    proof (rule ccontr)
      assume "m_tag (c # collapse_blank s') \<noteq> None"
      then obtain c1 r where c: "c = 60" and cs: "collapse_blank s' = c1 # r"
        and c1: "c1 \<noteq> 62" and r: "62 \<in> set r"
        using m_tag_iff [of "c # collapse_blank s'"] by auto
      from cs r have "62 \<in> set (collapse_blank s')" by simp
      then have in_s: "62 \<in> set s'" by (rule in_collapse) simp
      then obtain e s'' where s': "s' = e # s''" by (cases s') auto
      have "e \<noteq> 62"
      proof
        assume "e = 62"
        then have "collapse_blank s' = 62 # collapse_blank s''"
          using s' by (simp add: collapse_char)
        with cs c1 show False by simp
      qed
      with in_s s' have "62 \<in> set s''" by simp
      with \<open>e \<noteq> 62\<close> c s' have "m_tag (c # s') \<noteq> None"
        using m_tag_iff [of "c # s'"] by blast
      with mt show False by simp
    qed
    with t Char show ?thesis by (simp add: collapse_char)
  next
    case (Single t rest)
    from "1.prems" have "no_tags ((10 # t) @ rest)" by (simp add: Single(1))
    then have "no_tags rest" by (rule no_tags_appendD2)
    then have "no_tags (collapse_blank rest)" using ih [of rest] Single(1) by simp
    then have "no_tags (t @ collapse_blank rest)"
      using not_space_60 [OF Single(2)] by (intro no_tags_space_prefix)
    then show ?thesis using Single by (simp add: collapse_single m_tag_head)
  next
    case (Double w t rest)
    from "1.prems" have "no_tags ((10 # w @ 10 # t) @ rest)" by (simp add: Double(1))
    then have "no_tags rest" by (rule no_tags_appendD2)
    then have "no_tags (collapse_blank rest)" using ih [of rest] Double(1) by simp
    then have "no_tags (t @ collapse_blank rest)"
      using not_space_60 [OF Double(3)] by (intro no_tags_space_prefix)
    then show ?thesis using Double by (simp add: collapse_double m_tag_head)
  qed
qed

lemma clean_no_tags: "no_tags x \<Longrightarrow> clean_html_content x = strip (collapse_blank x)"
  by (simp add: clean_html_content_def no_tags_passes)

text \<open>
  C7: on a text that holds no HTML tag (the tag pattern of the normalizer matches
  nowhere in it), normalizing twice gives what normalizing once gives.
\<close>

theorem normalizer_idempotent_without_tags:
  assumes "no_tags x"
  shows "clean_html_content (clean_html_content x) = clean_html_content x"
proof -
  let ?y = "strip (collapse_blank x)"
  have y: "clean_html_content x = ?y" using assms by (rule clean_no_tags)
  have "no_tags ?y" using assms by (intro no_tags_strip no_tags_collapse)
  then have "clean_html_content ?y = strip (collapse_blank ?y)" by (rule clean_no_tags)
  also have "\<dots> = strip (strip (collapse_blank (collapse_blank x)))"
    by (simp only: strip_collapse)
  also have "\<dots> = ?y" by (simp only: collapse_idem strip_idem)
  finally show ?thesis by (simp only: y)
qed

lemma two_paragraphs_no_tags: "no_tags two_paragraphs"
  by (simp add: two_paragraphs_def u_def m_tag_def)

lemma clean_two_paragraphs:
  "clean_html_content two_paragraphs = u ''a > b'' @ [10, 10] @ u ''c < d''"
  by (simp add: clean_no_tags two_paragraphs_no_tags)
     (simp add: two_paragraphs_def collapse_blank_def re_sub_def m_blank_def strip_def
        isspace_def u_def Let_def)

theorem normalizer_idempotent_without_tags_witness:
  "no_tags two_paragraphs \<and>
   clean_html_content two_paragraphs = u ''a > b'' @ [10, 10] @ u ''c < d'' \<and>
   clean_html_content (u ''a > b'' @ [10, 10] @ u ''c < d'') = u ''a > b'' @ [10, 10] @ u ''c < d''"
  using normalizer_idempotent_without_tags [OF two_paragraphs_no_tags]
    two_paragraphs_no_tags clean_two_paragraphs
  by simp

subsection \<open>Script blocks\<close>
































end
